theory Spec2Isabelle
  imports Main "HOL-Library.List_Lexorder"
begin

section \<open>Strings and the character tables\<close>

text \<open>
  A Python \<^verbatim>\<open>str\<close> is a sequence of Unicode code points; a code point is a \<open>nat\<close>.
  \<open>u\<close> reads an ASCII literal as such a sequence.
\<close>

type_synonym ustr = "nat list"

definition u :: "string \<Rightarrow> ustr" where
  "u cs = map of_char cs"

text \<open>
  The scrapers consult the Unicode character database through \<^verbatim>\<open>str.strip\<close>,
  \<^verbatim>\<open>str.lower\<close> and the classes and the case folding of the \<^verbatim>\<open>re\<close> module.
  The database is not part of the repository, so every function of the model takes it
  as a parameter \<open>U\<close>:
  \<^item> \<open>isspace\<close>: \<^verbatim>\<open>str.isspace\<close> on one code point (used by \<^verbatim>\<open>strip()\<close> and \<^verbatim>\<open>\s\<close>);
  \<^item> \<open>isdecimal\<close>: the decimal digits (\<^verbatim>\<open>\d\<close>);
  \<^item> \<open>isalnum\<close>: the alphanumerics (\<^verbatim>\<open>\w\<close> is these and the underscore; \<^verbatim>\<open>\b\<close> uses it);
  \<^item> \<open>tolower\<close>: the simple lower-case mapping used by \<^verbatim>\<open>re.IGNORECASE\<close>;
  \<^item> \<open>cased\<close>: whether a code point has another case (the regex compiler compares an
    uncased literal exactly);
  \<^item> \<open>equivs\<close>: the extra case equivalents of a lower-case letter known to the
    regex compiler (for instance the long s for \<^verbatim>\<open>s\<close>);
  \<^item> \<open>lower\<close>: \<^verbatim>\<open>str.lower\<close> on a whole string.
\<close>

record ucd =
  isspace :: "nat \<Rightarrow> bool"
  isdecimal :: "nat \<Rightarrow> bool"
  isalnum :: "nat \<Rightarrow> bool"
  tolower :: "nat \<Rightarrow> nat"
  cased :: "nat \<Rightarrow> bool"
  equivs :: "nat \<Rightarrow> nat list"
  lower :: "ustr \<Rightarrow> ustr"

text \<open>
  \<open>latin1\<close> is the part of Python's tables that the concrete evaluations below need.
  It is exact on the code points below 256 (Basic Latin and Latin-1 Supplement): white
  space 9 to 13, 28 to 32, 133 and 160; decimal digits 48 to 57; alphanumerics the
  digits, the ASCII letters, 170, 178, 179, 181, 185, 186, 188 to 190 and the letters 192
  to 255 except 215 and 247; upper case 65 to 90 and 192 to 222 except 215, each 32 below
  its lower case. White space is given in full (5760, 8192 to 8202, 8232, 8233, 8239,
  8287 and 12288 beyond Latin-1), and so are the five letters beyond Latin-1 whose lower
  case is below 256 (304, 376, 7838, 8490, 8491). Every other code point is taken as a
  caseless symbol. The theorems about all inputs hold for every table \<open>U\<close>.
\<close>

definition l1_space :: "nat \<Rightarrow> bool" where
  "l1_space c = ((9 \<le> c \<and> c \<le> 13) \<or> (28 \<le> c \<and> c \<le> 32) \<or> c = 133 \<or> c = 160 \<or> c = 5760
     \<or> (8192 \<le> c \<and> c \<le> 8202) \<or> c = 8232 \<or> c = 8233 \<or> c = 8239 \<or> c = 8287 \<or> c = 12288)"

definition l1_decimal :: "nat \<Rightarrow> bool" where
  "l1_decimal c = (48 \<le> c \<and> c \<le> 57)"

definition l1_upper :: "nat \<Rightarrow> bool" where
  "l1_upper c = ((65 \<le> c \<and> c \<le> 90) \<or> (192 \<le> c \<and> c \<le> 222 \<and> c \<noteq> 215))"

definition l1_alnum :: "nat \<Rightarrow> bool" where
  "l1_alnum c = ((48 \<le> c \<and> c \<le> 57) \<or> (65 \<le> c \<and> c \<le> 90) \<or> (97 \<le> c \<and> c \<le> 122)
     \<or> c = 170 \<or> c = 178 \<or> c = 179 \<or> c = 181 \<or> c = 185 \<or> c = 186 \<or> (188 \<le> c \<and> c \<le> 190)
     \<or> (192 \<le> c \<and> c \<le> 255 \<and> c \<noteq> 215 \<and> c \<noteq> 247)
     \<or> c = 304 \<or> c = 376 \<or> c = 7838 \<or> c = 8490 \<or> c = 8491)"

definition l1_tolower :: "nat \<Rightarrow> nat" where
  "l1_tolower c =
     (if l1_upper c then c + 32
      else if c = 304 then 105 else if c = 376 then 255 else if c = 7838 then 223
      else if c = 8490 then 107 else if c = 8491 then 229 else c)"

definition l1_cased :: "nat \<Rightarrow> bool" where
  "l1_cased c = ((65 \<le> c \<and> c \<le> 90) \<or> (97 \<le> c \<and> c \<le> 122) \<or> c = 181
     \<or> (192 \<le> c \<and> c \<le> 255 \<and> c \<noteq> 215 \<and> c \<noteq> 247)
     \<or> c = 304 \<or> c = 376 \<or> c = 7838 \<or> c = 8490 \<or> c = 8491)"

definition l1_equivs :: "nat \<Rightarrow> nat list" where
  "l1_equivs c =
     (if c = 105 then [305] else if c = 115 then [383] else if c = 181 then [956]
      else if c = 305 then [105] else if c = 383 then [115] else if c = 956 then [181]
      else [])"

text \<open>\<^verbatim>\<open>str.lower\<close> on one code point: 304 becomes two code points.\<close>

definition l1_lower :: "nat \<Rightarrow> nat list" where
  "l1_lower c = (if c = 304 then [105, 775] else [l1_tolower c])"

definition latin1 :: ucd where
  "latin1 = \<lparr> isspace = l1_space, isdecimal = l1_decimal, isalnum = l1_alnum,
      tolower = l1_tolower, cased = l1_cased, equivs = l1_equivs,
      lower = (\<lambda>s. concat (map l1_lower s)) \<rparr>"

text \<open>\<^verbatim>\<open>s.strip()\<close>: drop the white space at both ends.\<close>

definition strip :: "ucd \<Rightarrow> ustr \<Rightarrow> ustr" where
  "strip U s = rev (dropWhile (isspace U) (rev (dropWhile (isspace U) s)))"

text \<open>\<^verbatim>\<open>k in s\<close> on strings: \<open>k\<close> occurs in \<open>s\<close> as a contiguous substring.\<close>

fun starts_with :: "ustr \<Rightarrow> ustr \<Rightarrow> bool" where
  "starts_with [] s = True"
| "starts_with (k # ks) [] = False"
| "starts_with (k # ks) (c # s) = (k = c \<and> starts_with ks s)"

fun contains :: "ustr \<Rightarrow> ustr \<Rightarrow> bool" where
  "contains k [] = (k = [])"
| "contains k (c # s) = (starts_with k (c # s) \<or> contains k s)"

section \<open>The regular expressions of the \<^verbatim>\<open>re\<close> module\<close>

text \<open>
  The patterns of the scrapers use: literals, classes (also negated, with \<^verbatim>\<open>\s\<close> and
  \<^verbatim>\<open>\d\<close> inside), the dot, the greedy repeats \<^verbatim>\<open>*\<close>, \<^verbatim>\<open>+\<close>, \<^verbatim>\<open>?\<close> and the lazy
  \<^verbatim>\<open>+?\<close> on one-character atoms, \<^verbatim>\<open>^\<close>, \<^verbatim>\<open>$\<close>, \<^verbatim>\<open>\b\<close>, alternation, groups and one
  back-reference. The matcher is the backtracking one of Python: it returns every way
  to match at a position, in the order in which Python tries them, and the first one
  is the match.
\<close>

datatype citem = Chr nat | Spc | Dig

datatype atom = Lit nat | Cls bool "citem list" | Dot

datatype regex =
    Atom atom
  | Star atom
  | Plus atom
  | Opt atom
  | PlusLazy atom
  | Bol
  | Eol
  | WordB
  | Eps
  | Seq regex regex
  | Alt regex regex
  | Group nat regex
  | Backref nat

text \<open>A literal under \<^verbatim>\<open>IGNORECASE\<close>: a cased literal is compared after lowering the
  subject, against the lowered literal and its equivalents; an uncased one exactly.\<close>

definition lit_match :: "ucd \<Rightarrow> bool \<Rightarrow> nat \<Rightarrow> nat \<Rightarrow> bool" where
  "lit_match U ic c ch =
     (if ic \<and> cased U c
      then tolower U ch \<in> set (tolower U c # equivs U (tolower U c))
      else ch = c)"

fun item_match :: "ucd \<Rightarrow> citem \<Rightarrow> nat \<Rightarrow> bool" where
  "item_match U (Chr c) ch = (ch = c)"
| "item_match U Spc ch = isspace U ch"
| "item_match U Dig ch = isdecimal U ch"

fun item_cased :: "ucd \<Rightarrow> citem \<Rightarrow> bool" where
  "item_cased U (Chr c) = cased U c"
| "item_cased U Spc = False"
| "item_cased U Dig = False"

fun item_fold :: "ucd \<Rightarrow> citem \<Rightarrow> citem list" where
  "item_fold U (Chr c) = map Chr (tolower U c # equivs U (tolower U c))"
| "item_fold U Spc = [Spc]"
| "item_fold U Dig = [Dig]"

text \<open>A class under \<^verbatim>\<open>IGNORECASE\<close>: when it holds a cased character, its members are
  lowered (with their equivalents) and tested on the lowered subject.\<close>

definition cls_match :: "ucd \<Rightarrow> bool \<Rightarrow> citem list \<Rightarrow> nat \<Rightarrow> bool" where
  "cls_match U ic items ch =
     (if ic \<and> list_ex (item_cased U) items
      then list_ex (\<lambda>it. item_match U it (tolower U ch)) (concat (map (item_fold U) items))
      else list_ex (\<lambda>it. item_match U it ch) items)"

fun atom_match :: "ucd \<Rightarrow> bool \<Rightarrow> atom \<Rightarrow> nat \<Rightarrow> bool" where
  "atom_match U ic (Lit c) ch = lit_match U ic c ch"
| "atom_match U ic (Cls neg items) ch = (cls_match U ic items ch \<noteq> neg)"
| "atom_match U ic Dot ch = (ch \<noteq> 10)"

text \<open>
  A position in the subject is the reversed text before it and the text after it; a
  match state adds the groups captured so far.
\<close>

type_synonym pos = "ustr \<times> ustr"
type_synonym mstate = "ustr \<times> ustr \<times> (nat \<times> ustr) list"

text \<open>The ways to match \<^verbatim>\<open>x*\<close>, longest first, and \<^verbatim>\<open>x*?\<close>, shortest first.\<close>

fun greedy_runs :: "(nat \<Rightarrow> bool) \<Rightarrow> ustr \<Rightarrow> ustr \<Rightarrow> pos list" where
  "greedy_runs P p [] = [(p, [])]"
| "greedy_runs P p (c # s) = (if P c then greedy_runs P (c # p) s else []) @ [(p, c # s)]"

fun lazy_runs :: "(nat \<Rightarrow> bool) \<Rightarrow> ustr \<Rightarrow> ustr \<Rightarrow> pos list" where
  "lazy_runs P p [] = [(p, [])]"
| "lazy_runs P p (c # s) = (p, c # s) # (if P c then lazy_runs P (c # p) s else [])"

definition isword :: "ucd \<Rightarrow> nat \<Rightarrow> bool" where
  "isword U c = (isalnum U c \<or> c = 95)"

definition at_boundary :: "ucd \<Rightarrow> ustr \<Rightarrow> ustr \<Rightarrow> bool" where
  "at_boundary U p s =
     ((case p of [] \<Rightarrow> False | c # _ \<Rightarrow> isword U c) \<noteq> (case s of [] \<Rightarrow> False | c # _ \<Rightarrow> isword U c))"

definition same_ci :: "ucd \<Rightarrow> bool \<Rightarrow> nat \<Rightarrow> nat \<Rightarrow> bool" where
  "same_ci U ic a b = (if ic then tolower U a = tolower U b else a = b)"

fun mt :: "ucd \<Rightarrow> bool \<Rightarrow> regex \<Rightarrow> mstate \<Rightarrow> mstate list" where
  "mt U ic (Atom a) (p, s, g) =
     (case s of [] \<Rightarrow> [] | c # t \<Rightarrow> if atom_match U ic a c then [(c # p, t, g)] else [])"
| "mt U ic (Star a) (p, s, g) = map (\<lambda>(p', s'). (p', s', g)) (greedy_runs (atom_match U ic a) p s)"
| "mt U ic (Plus a) (p, s, g) =
     (case s of [] \<Rightarrow> []
      | c # t \<Rightarrow> if atom_match U ic a c
                 then map (\<lambda>(p', s'). (p', s', g)) (greedy_runs (atom_match U ic a) (c # p) t)
                 else [])"
| "mt U ic (Opt a) (p, s, g) =
     (case s of [] \<Rightarrow> [] | c # t \<Rightarrow> if atom_match U ic a c then [(c # p, t, g)] else []) @ [(p, s, g)]"
| "mt U ic (PlusLazy a) (p, s, g) =
     (case s of [] \<Rightarrow> []
      | c # t \<Rightarrow> if atom_match U ic a c
                 then map (\<lambda>(p', s'). (p', s', g)) (lazy_runs (atom_match U ic a) (c # p) t)
                 else [])"
| "mt U ic Bol (p, s, g) = (if p = [] then [(p, s, g)] else [])"
| "mt U ic Eol (p, s, g) = (if s = [] \<or> s = [10] then [(p, s, g)] else [])"
| "mt U ic WordB (p, s, g) = (if at_boundary U p s then [(p, s, g)] else [])"
| "mt U ic Eps (p, s, g) = [(p, s, g)]"
| "mt U ic (Seq r1 r2) st = concat (map (mt U ic r2) (mt U ic r1 st))"
| "mt U ic (Alt r1 r2) st = mt U ic r1 st @ mt U ic r2 st"
| "mt U ic (Group n r) (p, s, g) =
     map (\<lambda>(p', s', g'). (p', s', (n, rev (take (length p' - length p) p')) # g'))
       (mt U ic r (p, s, g))"
| "mt U ic (Backref n) (p, s, g) =
     (case map_of g n of
        None \<Rightarrow> []
      | Some t \<Rightarrow>
          if length t \<le> length s \<and> list_all2 (same_ci U ic) t (take (length t) s)
          then [(rev (take (length t) s) @ p, drop (length t) s, g)]
          else [])"

text \<open>Sequences, alternatives and literal words, to write a pattern as it reads.\<close>

definition seq :: "regex list \<Rightarrow> regex" where
  "seq rs = foldr Seq rs Eps"

fun alts :: "regex list \<Rightarrow> regex" where
  "alts [] = Eps"
| "alts [r] = r"
| "alts (r # rs) = Alt r (alts rs)"

definition word :: "ustr \<Rightarrow> regex" where
  "word w = seq (map (\<lambda>c. Atom (Lit c)) w)"

text \<open>
  The first match at a position. After an empty match \<^verbatim>\<open>re.sub\<close> searches again from
  the same position and refuses a match that is empty there (\<open>adv\<close>).
\<close>

definition first_match :: "ucd \<Rightarrow> bool \<Rightarrow> regex \<Rightarrow> bool \<Rightarrow> pos \<Rightarrow> mstate option" where
  "first_match U ic r adv ps =
     find (\<lambda>(p', s', g). \<not> adv \<or> length s' \<noteq> length (snd ps)) (mt U ic r (fst ps, snd ps, []))"

text \<open>
  \<^verbatim>\<open>re.sub(pattern, repl, s)\<close> with a replacement that has no group reference: from
  left to right, the leftmost match is replaced and the scan goes on after it; where
  nothing matches, one character is copied.
\<close>

function sub_loop :: "ucd \<Rightarrow> bool \<Rightarrow> regex \<Rightarrow> ustr \<Rightarrow> ustr \<Rightarrow> ustr \<Rightarrow> bool \<Rightarrow> ustr" where
  "sub_loop U ic r repl p s adv =
     (case first_match U ic r adv (p, s) of
        Some (p', s', g) \<Rightarrow>
          if length s' < length s then repl @ sub_loop U ic r repl p' s' False
          else if adv then (case s of [] \<Rightarrow> [] | c # t \<Rightarrow> c # sub_loop U ic r repl (c # p) t False)
          else repl @ sub_loop U ic r repl p s True
      | None \<Rightarrow> (case s of [] \<Rightarrow> [] | c # t \<Rightarrow> c # sub_loop U ic r repl (c # p) t False))"
  by pat_completeness auto
termination
  by (relation "measure (\<lambda>(U, ic, r, repl, p, s, adv). 2 * length s + (if adv then 0 else 1))") auto

declare sub_loop.simps [simp del]

definition re_sub :: "ucd \<Rightarrow> bool \<Rightarrow> regex \<Rightarrow> ustr \<Rightarrow> ustr \<Rightarrow> ustr" where
  "re_sub U ic r repl s = sub_loop U ic r repl [] s False"

text \<open>\<^verbatim>\<open>re.match(pattern, s)\<close>: the first match at the start of \<open>s\<close>, as its groups.\<close>

definition re_match :: "ucd \<Rightarrow> bool \<Rightarrow> regex \<Rightarrow> ustr \<Rightarrow> (nat \<times> ustr) list option" where
  "re_match U ic r s = map_option (\<lambda>(p', s', g). g) (first_match U ic r False ([], s))"

section \<open>The name normalizer\<close>

text \<open>The patterns, in the order of \<^verbatim>\<open>clean_store_name\<close>.\<close>

definition pat_paren :: regex where \<comment> \<open>\<^verbatim>\<open>\s*\([^)]*\)\<close>\<close>
  "pat_paren = seq [Star (Cls False [Spc]), Atom (Lit 40), Star (Cls True [Chr 41]), Atom (Lit 41)]"

definition pat_plan_num :: regex where \<comment> \<open>\<^verbatim>\<open>\b[Pp]lan\s*\d+\b\<close>\<close>
  "pat_plan_num = seq [WordB, Atom (Cls False [Chr 80, Chr 112]), word (u ''lan''),
     Star (Cls False [Spc]), Plus (Cls False [Dig]), WordB]"

definition pat_status :: regex where
  \<comment> \<open>\<^verbatim>\<open>(?i)\b(st\xe4ng[ta]?|st\xe4nger|st\xe4ngt|\xf6ppet|st\xe4ngd)\b\<close>, the letters 228 and 246 written as escapes\<close>
  "pat_status = seq [WordB,
     Group 1 (alts [
       seq [word (u ''st'' @ [228] @ u ''ng''), Opt (Cls False [Chr 116, Chr 97])],
       word (u ''st'' @ [228] @ u ''nger''),
       word (u ''st'' @ [228] @ u ''ngt''),
       word ([246] @ u ''ppet''),
       word (u ''st'' @ [228] @ u ''ngd'')]),
     WordB]"

definition pat_dash :: regex where \<comment> \<open>hyphen, en dash (8211) or em dash (8212), then \<^verbatim>\<open>.*$\<close>\<close>
  "pat_dash = seq [Atom (Cls False [Chr 45, Chr 8211, Chr 8212]), Star Dot, Eol]"

definition pat_label :: regex where \<comment> \<open>\<^verbatim>\<open>(?i)^(butik|butiker|shop)[:\s-]+\<close>\<close>
  "pat_label = seq [Bol, Group 1 (alts [word (u ''butik''), word (u ''butiker''), word (u ''shop'')]),
     Plus (Cls False [Chr 58, Spc, Chr 45])]"

definition pat_ws :: regex where \<comment> \<open>\<^verbatim>\<open>\s+\<close>\<close>
  "pat_ws = Plus (Cls False [Spc])"

definition pat_plan :: regex where \<comment> \<open>\<^verbatim>\<open>(?i)\bplan\b\<close>\<close>
  "pat_plan = seq [WordB, word (u ''plan''), WordB]"

definition pat_pipe :: regex where \<comment> \<open>\<^verbatim>\<open>\s*\|.*$\<close>\<close>
  "pat_pipe = seq [Star (Cls False [Spc]), Atom (Lit 124), Star Dot, Eol]"

definition pat_location :: regex where
  \<comment> \<open>\<^verbatim>\<open>(?i)\b(?:gatuplan|\xf6vre|nedre)\b.*$\<close>\<close>
  "pat_location = seq [WordB,
     alts [word (u ''gatuplan''), word ([246] @ u ''vre''), word (u ''nedre'')],
     WordB, Star Dot, Eol]"

definition pat_street :: regex where
  \<comment> \<open>\<^verbatim>\<open>(?i)\b(?:hamngatan|postgatan|k\xf6pmansgatan|spannm\xe5lsgatan|nordstadstorget|lilla kl\xe4dpressaregatan)\b.*$\<close>,
     the letters 246, 229 and 228 written as escapes\<close>
  "pat_street = seq [WordB,
     alts [word (u ''hamngatan''), word (u ''postgatan''),
       word (u ''k'' @ [246] @ u ''pmansgatan''),
       word (u ''spannm'' @ [229] @ u ''lsgatan''),
       word (u ''nordstadstorget''),
       word (u ''lilla kl'' @ [228] @ u ''dpressaregatan'')],
     WordB, Star Dot, Eol]"

definition pat_trailnum :: regex where \<comment> \<open>\<^verbatim>\<open>[\s,/-]*\d+\s*$\<close>\<close>
  "pat_trailnum = seq [Star (Cls False [Spc, Chr 44, Chr 47, Chr 45]), Plus (Cls False [Dig]),
     Star (Cls False [Spc]), Eol]"

definition pat_dup :: regex where \<comment> \<open>\<^verbatim>\<open>^(?P<x>.+?)\s+\1$\<close>\<close>
  "pat_dup = seq [Bol, Group 1 (PlusLazy Dot), Plus (Cls False [Spc]), Backref 1, Eol]"

text \<open>The last step of both normalizers: \<^verbatim>\<open>NAME NAME\<close> becomes \<^verbatim>\<open>NAME\<close>.\<close>

definition collapse_dup :: "ucd \<Rightarrow> ustr \<Rightarrow> ustr" where
  "collapse_dup U s =
     (case re_match U True pat_dup s of
        Some g \<Rightarrow> (case map_of g 1 of Some x \<Rightarrow> strip U x | None \<Rightarrow> s)
      | None \<Rightarrow> s)"

text \<open>The steps that the two scrapers share, up to the removal of a lone \<^verbatim>\<open>plan\<close>.\<close>

definition clean_common :: "ucd \<Rightarrow> ustr \<Rightarrow> ustr" where
  "clean_common U raw =
     (let s = strip U raw;
          s = re_sub U False pat_paren [] s;
          s = re_sub U False pat_plan_num [] s;
          s = re_sub U True pat_status [] s;
          s = re_sub U False pat_dash [] s;
          s = re_sub U True pat_label [] s;
          s = re_sub U False pat_ws [32] s;
          s = strip U s;
          s = strip U (re_sub U True pat_plan [] s)
      in s)"

text \<open>The four further steps of \<^verbatim>\<open>westfield_scraper.py\<close>.\<close>

definition clean_location :: "ucd \<Rightarrow> ustr \<Rightarrow> ustr" where
  "clean_location U s0 =
     (let s = re_sub U False pat_pipe [] s0;
          s = re_sub U True pat_location [] s;
          s = re_sub U True pat_street [] s;
          s = re_sub U False pat_trailnum [] s
      in s)"

text \<open>\<^verbatim>\<open>clean_store_name\<close> of \<^verbatim>\<open>westfield_scraper.py\<close>.\<close>

definition westfield_clean_store_name :: "ucd \<Rightarrow> ustr \<Rightarrow> ustr" where
  "westfield_clean_store_name U raw =
     (if raw = [] then [] else collapse_dup U (clean_location U (clean_common U raw)))"

text \<open>\<^verbatim>\<open>clean_store_name\<close> of \<^verbatim>\<open>webscraper_jan.py\<close>.\<close>

definition jan_clean_store_name :: "ucd \<Rightarrow> ustr \<Rightarrow> ustr" where
  "jan_clean_store_name U raw =
     (if raw = [] then [] else collapse_dup U (clean_common U raw))"

section \<open>Candidate extraction\<close>

text \<open>
  A call into the page layer either raises or returns. A page element is what its two
  accessors do: \<^verbatim>\<open>inner_text()\<close> and \<^verbatim>\<open>get_attribute("href")\<close>, each of which may
  raise, return \<^verbatim>\<open>None\<close> or return a string.
\<close>

datatype 'a outcome = Raises | Returns 'a

record element =
  inner_text :: "ustr option outcome"
  get_href :: "ustr option outcome"

text \<open>\<^verbatim>\<open>x or ""\<close>\<close>

definition or_empty :: "ustr option \<Rightarrow> ustr" where
  "or_empty x = (case x of None \<Rightarrow> [] | Some s \<Rightarrow> s)"

definition heuristics :: "ustr list" where
  "heuristics = [u ''/butik'', u ''/butiker'', u ''/store'', u ''/shop'', u ''/shops'']"

definition text_words :: "ustr list" where
  "text_words = [u ''butik'', u ''store'', u ''shop'']"

text \<open>
  The two tests of the anchor loop on the trimmed text and the href: the first
  \<^verbatim>\<open>continue\<close>s on a text that is empty or shorter than 2, the second guards the body.
\<close>

definition candidate_filter :: "ucd \<Rightarrow> ustr \<Rightarrow> ustr \<Rightarrow> bool" where
  "candidate_filter U text href =
     (if text = [] \<or> length text < 2 then False
      else list_ex (\<lambda>k. contains k (lower U href)) heuristics
         \<or> list_ex (\<lambda>k. contains k (lower U text)) text_words)"

text \<open>The state of both loops: the list \<^verbatim>\<open>names\<close> and the set \<^verbatim>\<open>seen\<close>.\<close>

type_synonym names_seen = "ustr list \<times> ustr set"

definition add_name :: "ustr \<Rightarrow> names_seen \<Rightarrow> names_seen" where
  "add_name cleaned ns =
     (if cleaned \<noteq> [] \<and> cleaned \<notin> snd ns then (fst ns @ [cleaned], insert cleaned (snd ns)) else ns)"

definition anchor_step :: "ucd \<Rightarrow> (ustr \<Rightarrow> ustr) \<Rightarrow> names_seen \<Rightarrow> element \<Rightarrow> names_seen" where
  "anchor_step U clean ns a =
     (case inner_text a of
        Raises \<Rightarrow> ns
      | Returns t \<Rightarrow>
          (case get_href a of
             Raises \<Rightarrow> ns
           | Returns h \<Rightarrow>
               (let text = strip U (or_empty t); href = or_empty h
                in if candidate_filter U text href then add_name (clean text) ns else ns)))"

definition fallback_step :: "ucd \<Rightarrow> (ustr \<Rightarrow> ustr) \<Rightarrow> names_seen \<Rightarrow> element \<Rightarrow> names_seen" where
  "fallback_step U clean ns el =
     (case inner_text el of
        Raises \<Rightarrow> ns
      | Returns t \<Rightarrow> add_name (clean (strip U (or_empty t))) ns)"

text \<open>
  The two loops shared by \<^verbatim>\<open>extract_store_links\<close> and
  \<^verbatim>\<open>extract_store_names_from_page\<close>, which differ only in the \<^verbatim>\<open>clean_store_name\<close>
  they call, on the anchors and the class-selected elements that the two calls of
  \<^verbatim>\<open>query_selector_all\<close> have returned.
\<close>

definition extract_names :: "ucd \<Rightarrow> (ustr \<Rightarrow> ustr) \<Rightarrow> element list \<Rightarrow> element list \<Rightarrow> ustr list" where
  "extract_names U clean anchors candidates =
     (let ns = foldl (anchor_step U clean) ([], {}) anchors
      in if fst ns = [] then fst (foldl (fallback_step U clean) ns candidates) else fst ns)"

definition extract_store_links :: "ucd \<Rightarrow> element list \<Rightarrow> element list \<Rightarrow> ustr list" where
  "extract_store_links U = extract_names U (westfield_clean_store_name U)"

definition extract_store_names_from_page :: "ucd \<Rightarrow> element list \<Rightarrow> element list \<Rightarrow> ustr list" where
  "extract_store_names_from_page U = extract_names U (jan_clean_store_name U)"

text \<open>
  The whole function on a page, the two calls of \<^verbatim>\<open>query_selector_all\<close> included.
  Neither call stands in a \<^verbatim>\<open>try\<close>: when one raises, the function raises. The second
  call is made only when the anchor loop has left \<^verbatim>\<open>names\<close> empty.
\<close>

record page =
  query_anchors :: "element list outcome"
  query_candidates :: "element list outcome"

definition extract_page :: "ucd \<Rightarrow> (ustr \<Rightarrow> ustr) \<Rightarrow> page \<Rightarrow> ustr list outcome" where
  "extract_page U clean pg =
     (case query_anchors pg of
        Raises \<Rightarrow> Raises
      | Returns anchors \<Rightarrow>
          (let ns = foldl (anchor_step U clean) ([], {}) anchors
           in if fst ns = []
              then (case query_candidates pg of
                      Raises \<Rightarrow> Raises
                    | Returns candidates \<Rightarrow> Returns (fst (foldl (fallback_step U clean) ns candidates)))
              else Returns (fst ns)))"

definition extract_store_links_page :: "ucd \<Rightarrow> page \<Rightarrow> ustr list outcome" where
  "extract_store_links_page U = extract_page U (westfield_clean_store_name U)"

section \<open>The per-site lists and the grouped view of \<^verbatim>\<open>westfield_scraper.main\<close>\<close>

definition dedup_step :: "names_seen \<Rightarrow> ustr \<Rightarrow> names_seen" where
  "dedup_step ns n = (if n \<notin> snd ns then (fst ns @ [n], insert n (snd ns)) else ns)"

definition stop_headers :: "ustr set" where
  "stop_headers = {u ''butik'', u ''butiker''}"

text \<open>The loop over \<^verbatim>\<open>names\<close> that fills \<^verbatim>\<open>per_unique\<close> and \<^verbatim>\<open>per_seen\<close>.\<close>

definition dedup_names :: "ustr list \<Rightarrow> ustr list" where
  "dedup_names names = fst (foldl dedup_step ([], {}) names)"

text \<open>\<^verbatim>\<open>per_unique\<close> after the filter on the header words.\<close>

definition per_unique :: "ucd \<Rightarrow> ustr list \<Rightarrow> ustr list" where
  "per_unique U names =
     filter (\<lambda>x. x \<noteq> [] \<and> lower U (strip U x) \<notin> stop_headers) (dedup_names names)"

text \<open>The decimal digits of a number, as an f-string prints it.\<close>

fun str_nat :: "nat \<Rightarrow> ustr" where
  "str_nat n = (if n < 10 then [48 + n] else str_nat (n div 10) @ [48 + n mod 10])"

declare str_nat.simps [simp del]

text \<open>The lines of one site: the header, then the names numbered from 1.\<close>

definition site_lines :: "ustr \<Rightarrow> ustr list \<Rightarrow> ustr list" where
  "site_lines site_title names =
     (u ''== '' @ site_title @ u '' =='')
     # map (\<lambda>(i, nm). str_nat i @ u ''. '' @ nm) (zip [1..<Suc (length names)] names)"

text \<open>
  The directory in which the scraper writes and from which the export reads: the
  content of every file, by its name. Writing a file that exists replaces its content
  (\<^verbatim>\<open>open(name, "w")\<close>). A file holds a JSON list of strings, or something that the
  export cannot read.
\<close>

datatype loaded = Unreadable | Data "ustr list"

type_synonym directory = "(ustr \<times> loaded) list"

fun write_file :: "ustr \<Rightarrow> loaded \<Rightarrow> directory \<Rightarrow> directory" where
  "write_file n v [] = [(n, v)]"
| "write_file n v ((m, w) # d) = (if m = n then (n, v) # d else (m, w) # write_file n v d)"

definition per_filename :: "ustr \<Rightarrow> ustr" where
  "per_filename s = u ''westfield_stores_'' @ s @ u ''.json''"

text \<open>
  A site of a run: the slug of its URL (host and path in lower case, every run of
  characters other than \<^verbatim>\<open>a-z0-9\<close> replaced by an underscore, underscores stripped
  at both ends: two URLs can have the same slug), the host name of the URL, what
  \<^verbatim>\<open>page.title()\<close> does, and the page. The navigation to the page is taken to succeed.
\<close>

record site =
  slug :: ustr
  netloc :: ustr
  page_title :: "ustr outcome"
  site_page :: page

text \<open>The title of the header line: the trimmed page title, or the host name when
  the title raises or is empty.\<close>

definition site_title :: "ucd \<Rightarrow> site \<Rightarrow> ustr" where
  "site_title U st =
     (case page_title st of
        Raises \<Rightarrow> netloc st
      | Returns t \<Rightarrow> if strip U t = [] then netloc st else strip U t)"

text \<open>The state of the loop over the URLs: the directory and \<^verbatim>\<open>merged_display\<close>.\<close>

record run =
  files :: directory
  merged_display :: "ustr list"

text \<open>One URL. The extraction stands in no \<^verbatim>\<open>try\<close>: when it raises, the program ends.\<close>

definition main_step :: "ucd \<Rightarrow> run \<Rightarrow> site \<Rightarrow> run outcome" where
  "main_step U r st =
     (case extract_store_links_page U (site_page st) of
        Raises \<Rightarrow> Raises
      | Returns names \<Rightarrow>
          (let pu = per_unique U names
           in Returns \<lparr> files = write_file (per_filename (slug st)) (Data pu) (files r),
                merged_display = merged_display r @ site_lines (site_title U st) pu \<rparr>))"

fun main_loop :: "ucd \<Rightarrow> run \<Rightarrow> site list \<Rightarrow> run \<times> bool" where
  "main_loop U r [] = (r, True)"
| "main_loop U r (st # ss) =
     (case main_step U r st of
        Raises \<Rightarrow> (r, False)
      | Returns r' \<Rightarrow> main_loop U r' ss)"

text \<open>
  A run from a directory: the directory that it leaves, also when an exception ends
  it, and the grouped lines, which it writes (to \<^verbatim>\<open>westfield_stores.json\<close>) only after
  the last URL.
\<close>

definition westfield_main :: "ucd \<Rightarrow> directory \<Rightarrow> site list \<Rightarrow> directory \<times> ustr list outcome" where
  "westfield_main U d0 sites =
     (case main_loop U \<lparr> files = d0, merged_display = [] \<rparr> sites of
        (r, completed) \<Rightarrow> (files r, if completed then Returns (merged_display r) else Raises))"

section \<open>The merged and unique sheets of \<^verbatim>\<open>export_westfield_to_excel.main\<close>\<close>

text \<open>
  \<^verbatim>\<open>json_files\<close>: the names in the directory that match \<^verbatim>\<open>westfield_stores_*.json\<close>,
  sorted. (The program sorts the paths; all are in the working directory, so the order
  is that of the names.) Strings are ordered as Python orders them: by code point, from
  the left.
\<close>

definition glob_match :: "ustr \<Rightarrow> bool" where
  "glob_match n =
     (starts_with (u ''westfield_stores_'') n
      \<and> starts_with (rev (u ''.json'')) (rev (drop (length (u ''westfield_stores_'')) n)))"

definition json_files :: "directory \<Rightarrow> ustr list" where
  "json_files d = sort (filter glob_match (remdups (map fst d)))"

text \<open>\<^verbatim>\<open>s.replace(old, new)\<close>\<close>

function replace :: "ustr \<Rightarrow> ustr \<Rightarrow> ustr \<Rightarrow> ustr" where
  "replace old new s =
     (if old = [] then new @ concat (map (\<lambda>c. c # new) s)
      else if s = [] then []
      else if starts_with old s then new @ replace old new (drop (length old) s)
      else hd s # replace old new (tl s))"
  by pat_completeness auto
termination
  by (relation "measure (\<lambda>(old, new, s). length s)") auto

declare replace.simps [simp del]

text \<open>The source name that the export derives from a file name.\<close>

definition slug_of_file :: "ustr \<Rightarrow> ustr" where
  "slug_of_file n = replace (u ''.json'') [] (replace (u ''westfield_stores_'') [] n)"

text \<open>Reading a file; a file that cannot be read is skipped by the loop.\<close>

definition load_json :: "directory \<Rightarrow> ustr \<Rightarrow> loaded" where
  "load_json d n = (case map_of d n of None \<Rightarrow> Unreadable | Some l \<Rightarrow> l)"

text \<open>The loop over \<^verbatim>\<open>json_files\<close> that fills \<^verbatim>\<open>merged_rows\<close> with (source, store) pairs.\<close>

definition merged_rows :: "(ustr \<times> loaded) list \<Rightarrow> (ustr \<times> ustr) list" where
  "merged_rows fs =
     concat (map (\<lambda>(src, l). case l of Unreadable \<Rightarrow> [] | Data d \<Rightarrow> map (\<lambda>store. (src, store)) d) fs)"

type_synonym dedup_seen = "(ustr \<times> ustr) list \<times> ustr set"

definition unique_step :: "ucd \<Rightarrow> dedup_seen \<Rightarrow> ustr \<times> ustr \<Rightarrow> dedup_seen" where
  "unique_step U ds row =
     (let src = fst row; store = snd row; key = lower U (strip U store)
      in if key \<noteq> [] \<and> key \<notin> snd ds then (fst ds @ [(store, src)], insert key (snd ds)) else ds)"

definition unique_view :: "ucd \<Rightarrow> (ustr \<times> loaded) list \<Rightarrow> (ustr \<times> ustr) list" where
  "unique_view U fs = fst (foldl (unique_step U) ([], {}) (merged_rows fs))"

text \<open>
  The unique sheet that the export makes of a directory. (With no per-site file and no
  grouped file in the directory the export writes no workbook; the view is then empty
  here as well.)
\<close>

definition export_sources :: "directory \<Rightarrow> (ustr \<times> loaded) list" where
  "export_sources d = map (\<lambda>n. (slug_of_file n, load_json d n)) (json_files d)"

definition export_unique :: "ucd \<Rightarrow> directory \<Rightarrow> (ustr \<times> ustr) list" where
  "export_unique U d = unique_view U (export_sources d)"

section \<open>Notions used to state the properties\<close>

text \<open>
  These are not code of the scrapers. \<open>first_by_key\<close> keeps, of the elements with the
  same key, the first one, in the order of the list; \<open>first_seen\<close> is the case where
  an element is its own key.
\<close>

fun first_by_key :: "('a \<Rightarrow> 'k) \<Rightarrow> 'a list \<Rightarrow> 'a list" where
  "first_by_key k [] = []"
| "first_by_key k (x # xs) = x # filter (\<lambda>y. k y \<noteq> k x) (first_by_key k xs)"

definition first_seen :: "'a list \<Rightarrow> 'a list" where
  "first_seen xs = first_by_key (\<lambda>x. x) xs"

text \<open>
  The cleaned texts that the anchor loop offers to \<^verbatim>\<open>names\<close>, in the order of the
  anchors: one for each anchor whose accessors return and whose text and href pass the
  filter. Likewise for the loop of the fallback.
\<close>

definition anchor_offers :: "ucd \<Rightarrow> (ustr \<Rightarrow> ustr) \<Rightarrow> element list \<Rightarrow> ustr list" where
  "anchor_offers U clean els =
     concat (map (\<lambda>a.
       case inner_text a of
         Raises \<Rightarrow> []
       | Returns t \<Rightarrow>
           (case get_href a of
              Raises \<Rightarrow> []
            | Returns h \<Rightarrow>
                if candidate_filter U (strip U (or_empty t)) (or_empty h)
                then [clean (strip U (or_empty t))] else [])) els)"

definition fallback_offers :: "ucd \<Rightarrow> (ustr \<Rightarrow> ustr) \<Rightarrow> element list \<Rightarrow> ustr list" where
  "fallback_offers U clean els =
     concat (map (\<lambda>el.
       case inner_text el of
         Raises \<Rightarrow> []
       | Returns t \<Rightarrow> [clean (strip U (or_empty t))]) els)"

text \<open>
  A pattern matches nowhere in a text: at no position, from the text before it \<open>p\<close>
  (reversed) and the text after it, does the matcher find a match.
\<close>

fun unmatched :: "ucd \<Rightarrow> bool \<Rightarrow> regex \<Rightarrow> ustr \<Rightarrow> ustr \<Rightarrow> bool" where
  "unmatched U ic r p [] = (mt U ic r (p, [], []) = [])"
| "unmatched U ic r p (c # s) = (mt U ic r (p, c # s, []) = [] \<and> unmatched U ic r (c # p) s)"

definition no_match :: "ucd \<Rightarrow> bool \<Rightarrow> regex \<Rightarrow> ustr \<Rightarrow> bool" where
  "no_match U ic r s = unmatched U ic r [] s"

text \<open>
  Every white space character of a text is a single space (32) between two other
  characters or at an end: the rule that replaces \<^verbatim>\<open>\s+\<close> by a space then rewrites
  the text to itself.
\<close>

fun single_spaced :: "ucd \<Rightarrow> ustr \<Rightarrow> bool" where
  "single_spaced U [] = True"
| "single_spaced U (c # s) =
     (if isspace U c
      then c = 32 \<and> (case s of [] \<Rightarrow> True | d # _ \<Rightarrow> \<not> isspace U d) \<and> single_spaced U s
      else single_spaced U s)"

text \<open>
  A text is free of noise when it is trimmed, its white space is single spaces, and
  no other pattern of the normalizer matches in it.
\<close>

definition location_free :: "ucd \<Rightarrow> ustr \<Rightarrow> bool" where
  "location_free U y =
     (no_match U False pat_pipe y \<and> no_match U True pat_location y
      \<and> no_match U True pat_street y \<and> no_match U False pat_trailnum y)"

definition noise_free :: "ucd \<Rightarrow> ustr \<Rightarrow> bool" where
  "noise_free U y =
     (strip U y = y
      \<and> no_match U False pat_paren y \<and> no_match U False pat_plan_num y
      \<and> no_match U True pat_status y \<and> no_match U False pat_dash y
      \<and> no_match U True pat_label y \<and> single_spaced U y
      \<and> no_match U True pat_plan y \<and> location_free U y
      \<and> re_match U True pat_dup y = None)"

section \<open>Evaluation\<close>

text \<open>The equations that evaluate the model on a concrete input.\<close>

lemmas eval_tables = u_def strip_def latin1_def l1_space_def l1_decimal_def l1_alnum_def
  l1_upper_def l1_tolower_def l1_cased_def l1_equivs_def l1_lower_def

lemmas eval_regex = lit_match_def cls_match_def isword_def at_boundary_def
  same_ci_def seq_def word_def first_match_def re_sub_def re_match_def sub_loop.simps

lemmas eval_patterns = pat_paren_def pat_plan_num_def pat_status_def pat_dash_def pat_label_def
  pat_ws_def pat_plan_def pat_pipe_def pat_location_def pat_street_def pat_trailnum_def
  pat_dup_def

lemmas eval_clean = westfield_clean_store_name_def jan_clean_store_name_def clean_common_def
  clean_location_def collapse_dup_def

section \<open>First occurrences\<close>

text \<open>
  A loop that appends an element when its key is new, and records the key, computes
  \<open>first_by_key\<close>.
\<close>

lemma distinct_first_by_key: "distinct (map k (first_by_key k xs))"
  by (induction xs) (auto simp: distinct_map_filter)

lemma set_first_by_key: "k ` set (first_by_key k xs) = k ` set xs"
proof (induction xs)
  case Nil
  show ?case by simp
next
  case (Cons x xs)
  have "k ` set (filter (\<lambda>y. k y \<noteq> k x) zs) = k ` set zs - {k x}" for zs
    by (induction zs) auto
  then have "k ` set (first_by_key k (x # xs)) = insert (k x) (k ` set (first_by_key k xs) - {k x})"
    by simp
  also have "\<dots> = insert (k x) (k ` set xs)"
    using Cons.IH by blast
  finally show ?case by simp
qed

lemma fold_first_by_key:
  assumes step: "\<And>out S x. step (out, S) x =
     (if g x \<and> k x \<notin> S then (out @ [f x], insert (k x) S) else (out, S))"
  shows "foldl step (out, S) xs =
     (out @ map f (filter (\<lambda>x. k x \<notin> S) (first_by_key k (filter g xs))),
      S \<union> k ` set (filter g xs))"
proof (induction xs arbitrary: out S)
  case Nil
  show ?case by simp
next
  case (Cons x xs)
  show ?case
  proof (cases "g x \<and> k x \<notin> S")
    case True
    have "(\<lambda>y. k y \<notin> insert (k x) S) = (\<lambda>y. k y \<notin> S \<and> k y \<noteq> k x)" by auto
    with True show ?thesis
      by (simp add: step Cons.IH)
  next
    case False
    show ?thesis
    proof (cases "g x")
      case g: True
      with False have in_S: "k x \<in> S" by simp
      have "filter (\<lambda>y. k y \<notin> S) (filter (\<lambda>y. k y \<noteq> k x) zs) = filter (\<lambda>y. k y \<notin> S) zs" for zs
        using in_S by (induction zs) auto
      with g in_S show ?thesis
        by (auto simp add: step Cons.IH)
    next
      case ng: False
      then show ?thesis by (simp add: step Cons.IH)
    qed
  qed
qed

lemma first_by_key_Nil_iff: "first_by_key k xs = [] \<longleftrightarrow> xs = []"
  by (cases xs) simp_all

lemma first_seen_props:
  "distinct (first_seen xs)" "set (first_seen xs) = set xs"
  using distinct_first_by_key [of "\<lambda>x. x" xs] set_first_by_key [of "\<lambda>x. x" xs]
  by (simp_all add: first_seen_def)

lemma dedup_names_first_seen: "dedup_names xs = first_seen xs"
proof -
  have "foldl dedup_step ([], {}) xs =
     ([] @ map (\<lambda>x. x) (filter (\<lambda>x. x \<notin> {}) (first_by_key (\<lambda>x. x) (filter (\<lambda>x. True) xs))),
      {} \<union> (\<lambda>x. x) ` set (filter (\<lambda>x. True) xs))"
    by (rule fold_first_by_key) (simp add: dedup_step_def)
  then show ?thesis by (simp add: dedup_names_def first_seen_def)
qed

section \<open>The loops of the extraction\<close>

lemma anchor_fold:
  "foldl (anchor_step U clean) ns els = foldl (\<lambda>ns n. add_name n ns) ns (anchor_offers U clean els)"
proof (induction els arbitrary: ns)
  case Nil
  show ?case by (simp add: anchor_offers_def)
next
  case (Cons a els)
  have "anchor_offers U clean (a # els) = anchor_offers U clean [a] @ anchor_offers U clean els"
    by (simp add: anchor_offers_def)
  moreover have "anchor_step U clean ns a = foldl (\<lambda>ns n. add_name n ns) ns (anchor_offers U clean [a])"
    by (simp add: anchor_step_def anchor_offers_def Let_def split: outcome.splits)
  ultimately show ?case using Cons.IH by simp
qed

lemma fallback_fold:
  "foldl (fallback_step U clean) ns els = foldl (\<lambda>ns n. add_name n ns) ns (fallback_offers U clean els)"
proof (induction els arbitrary: ns)
  case Nil
  show ?case by (simp add: fallback_offers_def)
next
  case (Cons a els)
  have "fallback_offers U clean (a # els) = fallback_offers U clean [a] @ fallback_offers U clean els"
    by (simp add: fallback_offers_def)
  moreover have "fallback_step U clean ns a = foldl (\<lambda>ns n. add_name n ns) ns (fallback_offers U clean [a])"
    by (simp add: fallback_step_def fallback_offers_def split: outcome.splits)
  ultimately show ?case using Cons.IH by simp
qed

lemma add_name_fold:
  "foldl (\<lambda>ns n. add_name n ns) ([], {}) xs =
     (first_seen (filter (\<lambda>n. n \<noteq> []) xs), set (filter (\<lambda>n. n \<noteq> []) xs))"
proof -
  have "foldl (\<lambda>ns n. add_name n ns) ([], {}) xs =
     ([] @ map (\<lambda>x. x) (filter (\<lambda>x. x \<notin> {}) (first_by_key (\<lambda>x. x) (filter (\<lambda>n. n \<noteq> []) xs))),
      {} \<union> (\<lambda>x. x) ` set (filter (\<lambda>n. n \<noteq> []) xs))"
    by (rule fold_first_by_key) (simp add: add_name_def)
  then show ?thesis by (simp add: first_seen_def)
qed

lemma extract_names_eq:
  "extract_names U clean as cs =
     (if first_seen (filter (\<lambda>n. n \<noteq> []) (anchor_offers U clean as)) = []
      then first_seen (filter (\<lambda>n. n \<noteq> []) (fallback_offers U clean cs))
      else first_seen (filter (\<lambda>n. n \<noteq> []) (anchor_offers U clean as)))"
proof (cases "filter (\<lambda>n. n \<noteq> []) (anchor_offers U clean as) = []")
  case True
  then show ?thesis
    by (simp add: extract_names_def anchor_fold fallback_fold add_name_fold first_seen_def)
next
  case False
  then show ?thesis
    by (simp add: extract_names_def anchor_fold add_name_fold first_seen_def first_by_key_Nil_iff)
qed

lemma extract_names_invariants:
  "[] \<notin> set (extract_names U clean as cs) \<and> distinct (extract_names U clean as cs)"
  by (simp add: extract_names_eq first_seen_props)

lemma anchor_offers_append:
  "anchor_offers U clean (xs @ ys) = anchor_offers U clean xs @ anchor_offers U clean ys"
  by (simp add: anchor_offers_def)

lemma fallback_offers_append:
  "fallback_offers U clean (xs @ ys) = fallback_offers U clean xs @ fallback_offers U clean ys"
  by (simp add: fallback_offers_def)

lemma anchor_offers_raises:
  "inner_text e = Raises \<or> get_href e = Raises \<Longrightarrow> anchor_offers U clean [e] = []"
  by (auto simp: anchor_offers_def split: outcome.splits)

lemma fallback_offers_raises:
  "inner_text e = Raises \<Longrightarrow> fallback_offers U clean [e] = []"
  by (simp add: fallback_offers_def)

lemma extract_names_skip_anchor:
  assumes "inner_text e = Raises \<or> get_href e = Raises"
  shows "extract_names U clean (as1 @ e # as2) cs = extract_names U clean (as1 @ as2) cs"
proof -
  have "anchor_offers U clean (as1 @ e # as2) = anchor_offers U clean (as1 @ as2)"
    using anchor_offers_append [of U clean as1 "[e] @ as2"] anchor_offers_append [of U clean "[e]" as2]
      anchor_offers_raises [OF assms, of U clean] anchor_offers_append [of U clean as1 as2]
    by simp
  then show ?thesis by (simp add: extract_names_eq)
qed

lemma extract_names_skip_fallback:
  assumes "inner_text e = Raises"
  shows "extract_names U clean as (cs1 @ e # cs2) = extract_names U clean as (cs1 @ cs2)"
proof -
  have "fallback_offers U clean (cs1 @ e # cs2) = fallback_offers U clean (cs1 @ cs2)"
    using fallback_offers_append [of U clean cs1 "[e] @ cs2"] fallback_offers_append [of U clean "[e]" cs2]
      fallback_offers_raises [OF assms, of U clean] fallback_offers_append [of U clean cs1 cs2]
    by simp
  then show ?thesis by (simp add: extract_names_eq)
qed

lemma extract_names_primary: 
  "extract_names U clean as [] = first_seen (filter (\<lambda>n. n \<noteq> []) (anchor_offers U clean as))"
  by (simp add: extract_names_eq fallback_offers_def first_seen_def)

lemma extract_names_fallback_only: 
  "extract_names U clean [] cs = first_seen (filter (\<lambda>n. n \<noteq> []) (fallback_offers U clean cs))"
  by (simp add: extract_names_eq anchor_offers_def first_seen_def)

lemma extract_names_fallback_iff:
  "extract_names U clean as cs =
     (if extract_names U clean as [] = [] then extract_names U clean [] cs
      else extract_names U clean as [])"
  unfolding extract_names_primary extract_names_fallback_only
  by (simp add: extract_names_eq)

lemma anchor_pass_eq:
  "foldl (anchor_step U clean) ([], {}) as =
     (first_seen (filter (\<lambda>n. n \<noteq> []) (anchor_offers U clean as)),
      set (filter (\<lambda>n. n \<noteq> []) (anchor_offers U clean as)))"
  by (simp add: anchor_fold add_name_fold)

lemma first_seen_Nil_iff: "first_seen xs = [] \<longleftrightarrow> xs = []"
  by (simp add: first_seen_def first_by_key_Nil_iff)

lemma extract_page_eq:
  "extract_page U clean pg =
     (case query_anchors pg of
        Raises \<Rightarrow> Raises
      | Returns as \<Rightarrow>
          if first_seen (filter (\<lambda>n. n \<noteq> []) (anchor_offers U clean as)) = []
          then (case query_candidates pg of
                  Raises \<Rightarrow> Raises
                | Returns cs \<Rightarrow> Returns (first_seen (filter (\<lambda>n. n \<noteq> []) (fallback_offers U clean cs))))
          else Returns (first_seen (filter (\<lambda>n. n \<noteq> []) (anchor_offers U clean as))))"
proof (cases "query_anchors pg")
  case Raises
  then show ?thesis by (simp add: extract_page_def)
next
  case (Returns as)
  show ?thesis
  proof (cases "filter (\<lambda>n. n \<noteq> []) (anchor_offers U clean as) = []")
    case True
    then have "foldl (anchor_step U clean) ([], {}) as = ([], {})"
      by (simp add: anchor_pass_eq first_seen_def)
    with True Returns show ?thesis
      by (simp add: extract_page_def fallback_fold add_name_fold first_seen_def
          split: outcome.splits)
  next
    case False
    with Returns show ?thesis
      by (simp add: extract_page_def anchor_pass_eq first_seen_Nil_iff)
  qed
qed

lemma anchor_offers_skip:
  assumes "inner_text e = Raises \<or> get_href e = Raises"
  shows "anchor_offers U clean (as1 @ e # as2) = anchor_offers U clean (as1 @ as2)"
  using anchor_offers_append [of U clean as1 "[e] @ as2"] anchor_offers_append [of U clean "[e]" as2]
    anchor_offers_raises [OF assms, of U clean] anchor_offers_append [of U clean as1 as2]
  by simp

lemma fallback_offers_skip:
  assumes "inner_text e = Raises"
  shows "fallback_offers U clean (cs1 @ e # cs2) = fallback_offers U clean (cs1 @ cs2)"
  using fallback_offers_append [of U clean cs1 "[e] @ cs2"] fallback_offers_append [of U clean "[e]" cs2]
    fallback_offers_raises [OF assms, of U clean] fallback_offers_append [of U clean cs1 cs2]
  by simp

section \<open>Substrings\<close>

lemma starts_with_iff: "starts_with k s \<longleftrightarrow> (\<exists>b. s = k @ b)"
  by (induction k s rule: starts_with.induct) auto

lemma contains_iff: "contains k s \<longleftrightarrow> (\<exists>a b. s = a @ k @ b)"
proof (induction s)
  case Nil
  show ?case by auto
next
  case (Cons c s)
  show ?case
  proof
    assume "contains k (c # s)"
    then consider "starts_with k (c # s)" | "contains k s" by auto
    then show "\<exists>a b. c # s = a @ k @ b"
    proof cases
      case 1
      then obtain b where "c # s = k @ b" by (auto simp: starts_with_iff)
      then have "c # s = [] @ k @ b" by simp
      then show ?thesis by blast
    next
      case 2
      then obtain a b where "s = a @ k @ b" using Cons.IH by auto
      then have "c # s = (c # a) @ k @ b" by simp
      then show ?thesis by blast
    qed
  next
    assume "\<exists>a b. c # s = a @ k @ b"
    then obtain a b where ab: "c # s = a @ k @ b" by blast
    show "contains k (c # s)"
    proof (cases a)
      case Nil
      with ab have "starts_with k (c # s)" by (auto simp: starts_with_iff)
      then show ?thesis by simp
    next
      case (Cons a0 a')
      with ab have "s = a' @ k @ b" by simp
      then have "contains k s" using Cons.IH by blast
      then show ?thesis by simp
    qed
  qed
qed

lemma candidate_filter_iff:
  "candidate_filter U text href \<longleftrightarrow>
     (2 \<le> length text \<and>
       ((\<exists>k \<in> {u ''/butik'', u ''/butiker'', u ''/store'', u ''/shop'', u ''/shops''}.
            \<exists>a b. lower U href = a @ k @ b)
        \<or> (\<exists>k \<in> {u ''butik'', u ''store'', u ''shop''}. \<exists>a b. lower U text = a @ k @ b)))"
proof -
  have len: "(text = [] \<or> length text < 2) \<longleftrightarrow> \<not> 2 \<le> length text" by auto
  show ?thesis
    unfolding candidate_filter_def len heuristics_def text_words_def
    by (simp add: contains_iff)
qed

section \<open>The loops of the two main programs\<close>

lemma unique_fold:
  "foldl (unique_step U) ([], {}) rows =
     (map (\<lambda>row. (snd row, fst row))
        (first_by_key (\<lambda>row. lower U (strip U (snd row)))
           (filter (\<lambda>row. lower U (strip U (snd row)) \<noteq> []) rows)),
      (\<lambda>row. lower U (strip U (snd row))) ` set (filter (\<lambda>row. lower U (strip U (snd row)) \<noteq> []) rows))"
proof -
  have "foldl (unique_step U) ([], {}) rows =
     ([] @ map (\<lambda>row. (snd row, fst row))
        (filter (\<lambda>row. lower U (strip U (snd row)) \<notin> {})
          (first_by_key (\<lambda>row. lower U (strip U (snd row)))
            (filter (\<lambda>row. lower U (strip U (snd row)) \<noteq> []) rows))),
      {} \<union> (\<lambda>row. lower U (strip U (snd row))) ` set (filter (\<lambda>row. lower U (strip U (snd row)) \<noteq> []) rows))"
    by (rule fold_first_by_key) (simp add: unique_step_def Let_def)
  then show ?thesis by simp
qed

lemma merged_rows_append: "merged_rows (fs1 @ fs2) = merged_rows fs1 @ merged_rows fs2"
  by (simp add: merged_rows_def)

lemma per_unique_Nil: "per_unique U [] = []"
  by (simp add: per_unique_def dedup_names_def)

text \<open>What the export reads depends on the directory as a map from names to contents.\<close>

lemma map_of_write_file: "map_of (write_file n v d) = (map_of d)(n \<mapsto> v)"
  by (induction d) (auto simp: fun_eq_iff)

lemma set_json_files: "set (json_files d) = {n \<in> dom (map_of d). glob_match n}"
  by (auto simp: json_files_def dom_map_of_conv_image_fst)

lemma json_files_map_of:
  "json_files d = sorted_list_of_set {n \<in> dom (map_of d). glob_match n}"
proof -
  have "json_files d = sort (remdups (filter glob_match (map fst d)))"
    by (simp add: json_files_def remdups_filter)
  also have "\<dots> = sorted_list_of_set (set (filter glob_match (map fst d)))"
    by (simp only: sorted_list_of_set_sort_remdups)
  also have "set (filter glob_match (map fst d)) = {n \<in> dom (map_of d). glob_match n}"
    by (auto simp: dom_map_of_conv_image_fst)
  finally show ?thesis .
qed

lemma export_sources_cong: "map_of d = map_of d' \<Longrightarrow> export_sources d = export_sources d'"
  by (simp add: export_sources_def json_files_map_of load_json_def)

lemma insort_split: "\<exists>l1 l2. L = l1 @ l2 \<and> insort x L = l1 @ x # l2"
proof (induction L)
  case Nil
  show ?case by simp
next
  case (Cons y L)
  then obtain l1 l2 where s: "L = l1 @ l2" "insort x L = l1 @ x # l2" by blast
  show ?case
  proof (cases "x \<le> y")
    case True
    then have "y # L = [] @ (y # L) \<and> insort x (y # L) = [] @ x # (y # L)" by simp
    then show ?thesis by blast
  next
    case False
    with s have "y # L = (y # l1) @ l2 \<and> insort x (y # L) = (y # l1) @ x # l2" by simp
    then show ?thesis by blast
  qed
qed

lemma merged_rows_empty_file:
  assumes m: "map_of d' = (map_of d)(f \<mapsto> Data [])" and f: "f \<notin> dom (map_of d)"
  shows "merged_rows (export_sources d') = merged_rows (export_sources d)"
proof (cases "glob_match f")
  case False
  have "{n \<in> dom (map_of d'). glob_match n} = {n \<in> dom (map_of d). glob_match n}"
    using False by (auto simp: m)
  then have jf: "json_files d' = json_files d"
    by (simp add: json_files_map_of)
  have ld: "load_json d' n = load_json d n" if "n \<in> set (json_files d)" for n
  proof -
    from that have "n \<noteq> f" using False by (auto simp: set_json_files)
    then show ?thesis by (simp add: load_json_def m)
  qed
  have "map (\<lambda>n. (slug_of_file n, load_json d' n)) (json_files d)
      = map (\<lambda>n. (slug_of_file n, load_json d n)) (json_files d)"
    by (rule map_cong) (simp_all add: ld)
  then show ?thesis by (simp only: export_sources_def jf)
next
  case True
  let ?S = "{n \<in> dom (map_of d). glob_match n}"
  have fin: "finite ?S" by (simp add: finite_dom_map_of)
  have nin: "f \<notin> ?S" using f by simp
  have "{n \<in> dom (map_of d'). glob_match n} = insert f ?S"
    using True by (auto simp: m)
  then have jf: "json_files d' = insort f (json_files d)"
    using sorted_list_of_set_insert [OF fin nin] by (simp add: json_files_map_of)
  obtain l1 l2 where s: "json_files d = l1 @ l2" "insort f (json_files d) = l1 @ f # l2"
    using insort_split by blast
  have notf: "n \<noteq> f" if "n \<in> set (json_files d)" for n
    using that f by (auto simp: set_json_files)
  have same: "map (\<lambda>n. (slug_of_file n, load_json d' n)) l = map (\<lambda>n. (slug_of_file n, load_json d n)) l"
    if "set l \<subseteq> set (json_files d)" for l
    using that notf by (auto simp: load_json_def m)
  have l1: "set l1 \<subseteq> set (json_files d)" and l2: "set l2 \<subseteq> set (json_files d)"
    using s(1) by auto
  have e1: "map (\<lambda>n. (slug_of_file n, load_json d' n)) l1 = map (\<lambda>n. (slug_of_file n, load_json d n)) l1"
    by (rule same [OF l1])
  have e2: "map (\<lambda>n. (slug_of_file n, load_json d' n)) l2 = map (\<lambda>n. (slug_of_file n, load_json d n)) l2"
    by (rule same [OF l2])
  have "load_json d' f = Data []" by (simp add: load_json_def m)
  then have mid: "merged_rows [(slug_of_file f, load_json d' f)] = []" by (simp add: merged_rows_def)
  have "export_sources d' =
      map (\<lambda>n. (slug_of_file n, load_json d' n)) l1 @ [(slug_of_file f, load_json d' f)]
      @ map (\<lambda>n. (slug_of_file n, load_json d' n)) l2"
    by (simp add: export_sources_def jf s(2))
  then have "merged_rows (export_sources d') =
      merged_rows (map (\<lambda>n. (slug_of_file n, load_json d' n)) l1)
      @ merged_rows [(slug_of_file f, load_json d' f)]
      @ merged_rows (map (\<lambda>n. (slug_of_file n, load_json d' n)) l2)"
    by (simp only: merged_rows_append)
  also have "\<dots> = merged_rows (map (\<lambda>n. (slug_of_file n, load_json d n)) l1)
      @ merged_rows (map (\<lambda>n. (slug_of_file n, load_json d n)) l2)"
    by (simp only: e1 e2 mid append_Nil)
  also have "\<dots> = merged_rows (export_sources d)"
    by (simp only: export_sources_def s(1) map_append merged_rows_append)
  finally show ?thesis .
qed

lemma export_unique_rows:
  "merged_rows (export_sources d') = merged_rows (export_sources d) \<Longrightarrow>
     export_unique U d' = export_unique U d"
  by (simp add: export_unique_def unique_view_def)

text \<open>The loop over the sites: its grouped lines do not depend on the directory, and
  its files do not depend on the lines.\<close>

lemma site_lines_Nil: "site_lines t [] = [u ''== '' @ t @ u '' =='']"
  by (simp add: site_lines_def)

lemma main_loop_append:
  "main_loop U r (ss1 @ ss2) =
     (case main_loop U r ss1 of (r1, c) \<Rightarrow> if c then main_loop U r1 ss2 else (r1, False))"
  by (induction ss1 arbitrary: r) (simp_all split: outcome.splits)

lemma main_loop_display:
  "merged_display (fst (main_loop U r ss)) =
     merged_display r @ merged_display (fst (main_loop U \<lparr> files = d, merged_display = [] \<rparr> ss))
   \<and> snd (main_loop U r ss) = snd (main_loop U \<lparr> files = d, merged_display = [] \<rparr> ss)"
proof (induction ss arbitrary: r d)
  case Nil
  show ?case by simp
next
  case (Cons st ss)
  show ?case
  proof (cases "extract_store_links_page U (site_page st)")
    case Raises
    then show ?thesis by (simp add: main_step_def Let_def)
  next
    case (Returns names)
    let ?pu = "per_unique U names"
    let ?f = "per_filename (slug st)"
    let ?r1 = "\<lparr> files = write_file ?f (Data ?pu) (files r),
                merged_display = merged_display r @ site_lines (site_title U st) ?pu \<rparr>"
    let ?r2 = "\<lparr> files = write_file ?f (Data ?pu) d,
                merged_display = site_lines (site_title U st) ?pu \<rparr>"
    have s1: "main_loop U r (st # ss) = main_loop U ?r1 ss"
      using Returns by (simp add: main_step_def Let_def)
    have s2: "main_loop U \<lparr> files = d, merged_display = [] \<rparr> (st # ss) = main_loop U ?r2 ss"
      using Returns by (simp add: main_step_def Let_def)
    show ?thesis
      unfolding s1 s2
      using Cons.IH [of ?r1 d] Cons.IH [of ?r2 d] by simp
  qed
qed

lemma main_loop_files_other:
  "\<forall>n. n \<noteq> f \<longrightarrow> map_of (files r) n = map_of (files r') n \<Longrightarrow>
   \<forall>n. n \<noteq> f \<longrightarrow> map_of (files (fst (main_loop U r ss))) n = map_of (files (fst (main_loop U r' ss))) n"
proof (induction ss arbitrary: r r')
  case Nil
  then show ?case by simp
next
  case (Cons st ss)
  show ?case
  proof (cases "extract_store_links_page U (site_page st)")
    case Raises
    then show ?thesis using Cons.prems by (simp add: main_step_def Let_def)
  next
    case (Returns names)
    let ?pu = "per_unique U names"
    let ?g = "per_filename (slug st)"
    let ?a = "\<lparr> files = write_file ?g (Data ?pu) (files r),
                merged_display = merged_display r @ site_lines (site_title U st) ?pu \<rparr>"
    let ?b = "\<lparr> files = write_file ?g (Data ?pu) (files r'),
                merged_display = merged_display r' @ site_lines (site_title U st) ?pu \<rparr>"
    have s1: "main_loop U r (st # ss) = main_loop U ?a ss"
      using Returns by (simp add: main_step_def Let_def)
    have s2: "main_loop U r' (st # ss) = main_loop U ?b ss"
      using Returns by (simp add: main_step_def Let_def)
    have "\<forall>n. n \<noteq> f \<longrightarrow> map_of (files ?a) n = map_of (files ?b) n"
      using Cons.prems by (simp add: map_of_write_file)
    then show ?thesis unfolding s1 s2 by (rule Cons.IH)
  qed
qed

lemma main_loop_files_dom:
  "dom (map_of (files r)) \<subseteq> dom (map_of (files (fst (main_loop U r ss))))"
proof (induction ss arbitrary: r)
  case Nil
  show ?case by simp
next
  case (Cons st ss)
  show ?case
  proof (cases "extract_store_links_page U (site_page st)")
    case Raises
    then show ?thesis by (simp add: main_step_def Let_def)
  next
    case (Returns names)
    let ?a = "\<lparr> files = write_file (per_filename (slug st)) (Data (per_unique U names)) (files r),
                merged_display = merged_display r @ site_lines (site_title U st) (per_unique U names) \<rparr>"
    have s1: "main_loop U r (st # ss) = main_loop U ?a ss"
      using Returns by (simp add: main_step_def Let_def)
    have "dom (map_of (files r)) \<subseteq> dom (map_of (files ?a))"
      by (auto simp: map_of_write_file)
    then show ?thesis unfolding s1 using Cons.IH [of ?a] by blast
  qed
qed

text \<open>A file that the rest of the run does not write keeps its content.\<close>

lemma main_loop_files_keep:
  "f \<notin> dom (map_of (files (fst (main_loop U r ss)))) \<Longrightarrow>
   map_of (files (fst (main_loop U (r\<lparr> files := write_file f v (files r) \<rparr>) ss)))
     = (map_of (files (fst (main_loop U r ss))))(f \<mapsto> v)"
proof (induction ss arbitrary: r)
  case Nil
  show ?case by (simp add: map_of_write_file)
next
  case (Cons st ss)
  show ?case
  proof (cases "extract_store_links_page U (site_page st)")
    case Raises
    then show ?thesis by (simp add: main_step_def Let_def map_of_write_file)
  next
    case (Returns names)
    let ?pu = "per_unique U names"
    let ?g = "per_filename (slug st)"
    let ?a = "\<lparr> files = write_file ?g (Data ?pu) (files r),
                merged_display = merged_display r @ site_lines (site_title U st) ?pu \<rparr>"
    let ?b = "\<lparr> files = write_file ?g (Data ?pu) (write_file f v (files r)),
                merged_display = merged_display r @ site_lines (site_title U st) ?pu \<rparr>"
    have s1: "main_loop U r (st # ss) = main_loop U ?a ss"
      using Returns by (simp add: main_step_def Let_def)
    have s2: "main_loop U (r\<lparr> files := write_file f v (files r) \<rparr>) (st # ss) = main_loop U ?b ss"
      using Returns by (simp add: main_step_def Let_def)
    have nin: "f \<notin> dom (map_of (files (fst (main_loop U ?a ss))))"
      using Cons.prems unfolding s1 .
    have "?g \<in> dom (map_of (files ?a))" by (simp add: map_of_write_file)
    then have "?g \<in> dom (map_of (files (fst (main_loop U ?a ss))))"
      using main_loop_files_dom [of ?a U ss] by blast
    with nin have ne: "?g \<noteq> f" by blast
    have kf: "\<forall>n. n \<noteq> f \<longrightarrow> map_of (files ?b) n = map_of (files ?a) n"
      by (simp add: map_of_write_file)
    have other: "\<forall>n. n \<noteq> f \<longrightarrow>
        map_of (files (fst (main_loop U ?b ss))) n = map_of (files (fst (main_loop U ?a ss))) n"
      by (rule main_loop_files_other [OF kf])
    have same: "map_of (files ?b) = map_of (files (?a\<lparr> files := write_file f v (files ?a) \<rparr>))"
      using ne by (auto simp: map_of_write_file fun_eq_iff)
    have "\<forall>n. n \<noteq> g' \<longrightarrow> map_of (files ?b) n = map_of (files (?a\<lparr> files := write_file f v (files ?a) \<rparr>)) n" for g' :: ustr
      using same by simp
    then have eqall: "map_of (files (fst (main_loop U ?b ss))) n
        = map_of (files (fst (main_loop U (?a\<lparr> files := write_file f v (files ?a) \<rparr>) ss))) n" for n
      using main_loop_files_other [of "n @ [0]" ?b "?a\<lparr> files := write_file f v (files ?a) \<rparr>" U ss]
      by simp
    have "map_of (files (fst (main_loop U (?a\<lparr> files := write_file f v (files ?a) \<rparr>) ss)))
        = (map_of (files (fst (main_loop U ?a ss))))(f \<mapsto> v)"
      by (rule Cons.IH [OF nin])
    then show ?thesis unfolding s1 s2 using eqall by (simp add: fun_eq_iff)
  qed
qed

lemma main_loop_files_indep:
  assumes "map_of (files r) = map_of (files r')"
  shows "map_of (files (fst (main_loop U r ss))) = map_of (files (fst (main_loop U r' ss)))"
proof
  fix n :: ustr
  have "\<forall>k. k \<noteq> n @ [0] \<longrightarrow> map_of (files r) k = map_of (files r') k"
    using assms by simp
  then have "\<forall>k. k \<noteq> n @ [0] \<longrightarrow>
      map_of (files (fst (main_loop U r ss))) k = map_of (files (fst (main_loop U r' ss))) k"
    by (rule main_loop_files_other)
  then show "map_of (files (fst (main_loop U r ss))) n = map_of (files (fst (main_loop U r' ss))) n"
    by simp
qed

lemma main_step_empty:
  assumes "extract_store_links_page U (site_page st) = Returns []"
  shows "main_step U r st =
     Returns \<lparr> files = write_file (per_filename (slug st)) (Data []) (files r),
       merged_display = merged_display r @ [u ''== '' @ site_title U st @ u '' ==''] \<rparr>"
  using assms by (simp add: main_step_def Let_def per_unique_Nil site_lines_Nil)

lemma westfield_main_alt:
  "westfield_main U d ss =
     (files (fst (main_loop U \<lparr> files = d, merged_display = [] \<rparr> ss)),
      if snd (main_loop U \<lparr> files = d, merged_display = [] \<rparr> ss)
      then Returns (merged_display (fst (main_loop U \<lparr> files = d, merged_display = [] \<rparr> ss)))
      else Raises)"
  by (simp add: westfield_main_def case_prod_beta)

lemma westfield_main_display:
  "snd (westfield_main U d ss) =
     (if snd (main_loop U \<lparr> files = d', merged_display = [] \<rparr> ss)
      then Returns (merged_display (fst (main_loop U \<lparr> files = d', merged_display = [] \<rparr> ss)))
      else Raises)"
proof -
  have "merged_display (fst (main_loop U \<lparr> files = d, merged_display = [] \<rparr> ss))
      = merged_display (fst (main_loop U \<lparr> files = d', merged_display = [] \<rparr> ss))"
    and "snd (main_loop U \<lparr> files = d, merged_display = [] \<rparr> ss)
      = snd (main_loop U \<lparr> files = d', merged_display = [] \<rparr> ss)"
    using main_loop_display [of U "\<lparr> files = d, merged_display = [] \<rparr>" ss d'] by simp_all
  then show ?thesis by (simp add: westfield_main_alt)
qed

lemma westfield_main_files:
  "fst (westfield_main U d ss) = files (fst (main_loop U \<lparr> files = d, merged_display = [] \<rparr> ss))"
  by (simp add: westfield_main_alt)

lemma empty_site_display:
  assumes e: "extract_store_links_page U (site_page st) = Returns []"
  shows "snd (westfield_main U d0 (ss1 @ st # ss2)) =
     (case snd (westfield_main U d1 ss1) of
        Raises \<Rightarrow> Raises
      | Returns D1 \<Rightarrow>
          (case snd (westfield_main U d2 ss2) of
             Raises \<Rightarrow> Raises
           | Returns D2 \<Rightarrow> Returns (D1 @ [u ''== '' @ site_title U st @ u '' ==''] @ D2)))"
proof -
  let ?r0 = "\<lparr> files = d0, merged_display = [] \<rparr>"
  let ?h = "u ''== '' @ site_title U st @ u '' ==''"
  obtain r1 c1 where l1: "main_loop U ?r0 ss1 = (r1, c1)" by (cases "main_loop U ?r0 ss1")
  let ?r1' = "\<lparr> files = write_file (per_filename (slug st)) (Data []) (files r1),
       merged_display = merged_display r1 @ [?h] \<rparr>"
  have one: "snd (westfield_main U d1 ss1) = (if c1 then Returns (merged_display r1) else Raises)"
    using westfield_main_display [of U d1 ss1 d0] l1 by simp
  show ?thesis
  proof (cases c1)
    case False
    then have "main_loop U ?r0 (ss1 @ st # ss2) = (r1, False)"
      by (simp add: main_loop_append l1)
    then have "snd (westfield_main U d0 (ss1 @ st # ss2)) = Raises"
      by (simp add: westfield_main_alt)
    with one False show ?thesis by simp
  next
    case True
    have whole: "main_loop U ?r0 (ss1 @ st # ss2) = main_loop U ?r1' ss2"
      using True by (simp add: main_loop_append l1 main_step_empty [OF e])
    have md: "merged_display (fst (main_loop U ?r1' ss2)) =
        (merged_display r1 @ [?h])
        @ merged_display (fst (main_loop U \<lparr> files = d2, merged_display = [] \<rparr> ss2))"
      and cc: "snd (main_loop U ?r1' ss2) = snd (main_loop U \<lparr> files = d2, merged_display = [] \<rparr> ss2)"
      using main_loop_display [of U ?r1' ss2 d2] by simp_all
    have two: "snd (westfield_main U d2 ss2) =
       (if snd (main_loop U \<lparr> files = d2, merged_display = [] \<rparr> ss2)
        then Returns (merged_display (fst (main_loop U \<lparr> files = d2, merged_display = [] \<rparr> ss2)))
        else Raises)"
      by (rule westfield_main_display)
    have "snd (westfield_main U d0 (ss1 @ st # ss2)) =
       (if snd (main_loop U ?r1' ss2) then Returns (merged_display (fst (main_loop U ?r1' ss2)))
        else Raises)"
      by (simp add: westfield_main_alt whole)
    then show ?thesis
      unfolding one two md cc using True by simp
  qed
qed

lemma empty_site_files:
  assumes e: "extract_store_links_page U (site_page st) = Returns []"
  shows "(\<forall>n. n \<noteq> per_filename (slug st) \<longrightarrow>
           map_of (fst (westfield_main U d0 (ss1 @ st # ss2))) n
             = map_of (fst (westfield_main U d0 (ss1 @ ss2))) n)
         \<and> (per_filename (slug st) \<notin> fst ` set (fst (westfield_main U d0 (ss1 @ ss2))) \<longrightarrow>
              merged_rows (export_sources (fst (westfield_main U d0 (ss1 @ st # ss2))))
                = merged_rows (export_sources (fst (westfield_main U d0 (ss1 @ ss2)))))"
proof -
  let ?r0 = "\<lparr> files = d0, merged_display = [] \<rparr>"
  let ?f = "per_filename (slug st)"
  let ?h = "u ''== '' @ site_title U st @ u '' ==''"
  obtain r1 c1 where l1: "main_loop U ?r0 ss1 = (r1, c1)" by (cases "main_loop U ?r0 ss1")
  let ?r1' = "\<lparr> files = write_file ?f (Data []) (files r1),
       merged_display = merged_display r1 @ [?h] \<rparr>"
  show ?thesis
  proof (cases c1)
    case False
    then have "main_loop U ?r0 (ss1 @ st # ss2) = main_loop U ?r0 (ss1 @ ss2)"
      by (simp add: main_loop_append l1)
    then show ?thesis by (simp add: westfield_main_files)
  next
    case True
    have w: "main_loop U ?r0 (ss1 @ st # ss2) = main_loop U ?r1' ss2"
      using True by (simp add: main_loop_append l1 main_step_empty [OF e])
    have wo: "main_loop U ?r0 (ss1 @ ss2) = main_loop U r1 ss2"
      using True by (simp add: main_loop_append l1)
    have fw: "fst (westfield_main U d0 (ss1 @ st # ss2)) = files (fst (main_loop U ?r1' ss2))"
      by (simp add: westfield_main_files w)
    have fo: "fst (westfield_main U d0 (ss1 @ ss2)) = files (fst (main_loop U r1 ss2))"
      by (simp add: westfield_main_files wo)
    have "\<forall>n. n \<noteq> ?f \<longrightarrow> map_of (files ?r1') n = map_of (files r1) n"
      by (simp add: map_of_write_file)
    then have other: "\<forall>n. n \<noteq> ?f \<longrightarrow>
        map_of (files (fst (main_loop U ?r1' ss2))) n = map_of (files (fst (main_loop U r1 ss2))) n"
      by (rule main_loop_files_other)
    have rows: "merged_rows (export_sources (files (fst (main_loop U ?r1' ss2))))
        = merged_rows (export_sources (files (fst (main_loop U r1 ss2))))"
      if nin: "?f \<notin> fst ` set (files (fst (main_loop U r1 ss2)))"
    proof -
      have nd: "?f \<notin> dom (map_of (files (fst (main_loop U r1 ss2))))"
        using nin by (simp add: dom_map_of_conv_image_fst)
      have "map_of (files ?r1') = map_of (files (r1\<lparr> files := write_file ?f (Data []) (files r1) \<rparr>))"
        by simp
      then have "map_of (files (fst (main_loop U ?r1' ss2)))
          = map_of (files (fst (main_loop U (r1\<lparr> files := write_file ?f (Data []) (files r1) \<rparr>) ss2)))"
        by (rule main_loop_files_indep)
      also have "\<dots> = (map_of (files (fst (main_loop U r1 ss2))))(?f \<mapsto> Data [])"
        by (rule main_loop_files_keep [OF nd])
      finally show ?thesis
        using nd by (rule merged_rows_empty_file)
    qed
    show ?thesis unfolding fw fo using other rows by blast
  qed
qed

section \<open>Substitution where nothing matches\<close>

lemma sub_loop_unmatched:
  "unmatched U ic r p s \<Longrightarrow> sub_loop U ic r repl p s adv = s"
proof (induction s arbitrary: p adv)
  case Nil
  then have "first_match U ic r adv (p, []) = None" by (simp add: first_match_def)
  then show ?case by (subst sub_loop.simps) simp
next
  case (Cons c s)
  then have "first_match U ic r adv (p, c # s) = None" by (simp add: first_match_def)
  moreover have "sub_loop U ic r repl (c # p) s False = s" using Cons by simp
  ultimately show ?case by (subst sub_loop.simps) simp
qed

lemma re_sub_no_match: "no_match U ic r s \<Longrightarrow> re_sub U ic r repl s = s"
  by (simp add: no_match_def re_sub_def sub_loop_unmatched)

lemma clean_location_free: "location_free U s \<Longrightarrow> clean_location U s = s"
  by (simp add: location_free_def clean_location_def re_sub_no_match)



lemma greedy_runs_stop:
  "(case s of [] \<Rightarrow> True | d # _ \<Rightarrow> \<not> P d) \<Longrightarrow> greedy_runs P p s = [(p, s)]"
  by (cases s) simp_all

lemma sub_loop_single_spaced:
  "single_spaced U s \<Longrightarrow> sub_loop U False pat_ws [32] p s adv = s"
proof (induction s arbitrary: p adv)
  case Nil
  have "first_match U False pat_ws adv (p, []) = None"
    by (simp add: first_match_def pat_ws_def)
  then show ?case by (subst sub_loop.simps) simp
next
  case (Cons c s)
  show ?case
  proof (cases "isspace U c")
    case True
    with Cons.prems have c: "c = 32" and nxt: "case s of [] \<Rightarrow> True | d # _ \<Rightarrow> \<not> isspace U d"
      and rest: "single_spaced U s" by simp_all
    have am: "atom_match U False (Cls False [Spc]) = isspace U"
      by (rule ext) (simp add: cls_match_def)
    have "mt U False pat_ws (p, c # s, []) = [(c # p, s, [])]"
      using True greedy_runs_stop [OF nxt, of "c # p"] by (simp add: pat_ws_def am)
    then have "first_match U False pat_ws adv (p, c # s) = Some (c # p, s, [])"
      by (simp add: first_match_def)
    moreover have "sub_loop U False pat_ws [32] (c # p) s False = s"
      using Cons.IH rest by simp
    ultimately show ?thesis using c by (subst sub_loop.simps) simp
  next
    case False
    with Cons.prems have rest: "single_spaced U s" by simp
    have "mt U False pat_ws (p, c # s, []) = []"
      using False by (simp add: pat_ws_def cls_match_def)
    then have "first_match U False pat_ws adv (p, c # s) = None"
      by (simp add: first_match_def)
    moreover have "sub_loop U False pat_ws [32] (c # p) s False = s"
      using Cons.IH rest by simp
    ultimately show ?thesis by (subst sub_loop.simps) simp
  qed
qed

lemma re_sub_single_spaced: "single_spaced U s \<Longrightarrow> re_sub U False pat_ws [32] s = s"
  by (simp add: re_sub_def sub_loop_single_spaced)

lemma clean_common_noise_free: "noise_free U y \<Longrightarrow> clean_common U y = y"
  by (simp add: noise_free_def clean_common_def re_sub_no_match re_sub_single_spaced)


lemma collapse_dup_noise_free: "noise_free U y \<Longrightarrow> collapse_dup U y = y"
  by (simp add: noise_free_def collapse_dup_def)

lemma noise_free_fixed:
  assumes "noise_free U y"
  shows "westfield_clean_store_name U y = y" and "jan_clean_store_name U y = y"
proof -
  have l: "location_free U y" using assms by (simp add: noise_free_def)
  show "westfield_clean_store_name U y = y"
    by (simp add: westfield_clean_store_name_def clean_common_noise_free [OF assms]
        clean_location_free [OF l] collapse_dup_noise_free [OF assms])
  show "jan_clean_store_name U y = y"
    by (simp add: jan_clean_store_name_def clean_common_noise_free [OF assms]
        collapse_dup_noise_free [OF assms])
qed

lemmas eval_noise = noise_free_def location_free_def no_match_def

section \<open>Evaluation of pages, runs and exports\<close>

lemmas eval_page = extract_store_links_page_def extract_page_def anchor_step_def fallback_step_def
  candidate_filter_def heuristics_def text_words_def add_name_def or_empty_def

lemmas eval_main = westfield_main_def main_step_def per_unique_def dedup_names_def dedup_step_def
  stop_headers_def site_lines_def site_title_def per_filename_def str_nat.simps

lemmas eval_export = export_unique_def export_sources_def json_files_def glob_match_def
  slug_of_file_def load_json_def replace.simps unique_view_def merged_rows_def unique_step_def

lemma page_zara_names:
  "extract_store_links_page latin1
       \<lparr> query_anchors = Returns [\<lparr> inner_text = Returns (Some (u ''Zara'')), get_href = Returns (Some (u ''/butik/zara'')) \<rparr>], query_candidates = Returns [] \<rparr>
     = Returns [u ''Zara'']"
    unfolding eval_page eval_clean Let_def
    by (simp add: eval_tables eval_regex eval_patterns)

lemma page_nike_names:
  "extract_store_links_page latin1
       \<lparr> query_anchors = Returns [\<lparr> inner_text = Returns (Some (u ''Nike'')), get_href = Returns (Some (u ''/se/butiker/nike'')) \<rparr>], query_candidates = Returns [] \<rparr>
     = Returns [u ''Nike'']"
    unfolding eval_page eval_clean Let_def
    by (simp add: eval_tables eval_regex eval_patterns)

lemma page_without_names:
  "extract_store_links_page latin1
       \<lparr> query_anchors = Returns [\<lparr> inner_text = Returns (Some (u ''About'')), get_href = Returns (Some (u ''/about-us'')) \<rparr>,
            \<lparr> inner_text = Raises, get_href = Returns None \<rparr>], query_candidates = Returns [] \<rparr>
     = Returns []"
    unfolding eval_page eval_clean Let_def
    by (simp add: eval_tables eval_regex eval_patterns)

section \<open>Idempotence of the normalizer\<close>

text \<open>
  C1, as amended. Neither normalizer is idempotent on all inputs: the leading label is
  stripped once, so \<^verbatim>\<open>Butik Shop X\<close> gives \<^verbatim>\<open>Shop X\<close>, which gives \<^verbatim>\<open>X\<close>.
  Re-running a normalizer on its output changes nothing whenever that output is free of
  noise: trimmed, with single spaces only, with no match of any removal pattern in it
  and not of the form \<^verbatim>\<open>X X\<close>.
\<close>

theorem normalizer_idempotent_on_noise_free:
  "(noise_free U (westfield_clean_store_name U x) \<longrightarrow>
      westfield_clean_store_name U (westfield_clean_store_name U x) = westfield_clean_store_name U x)
   \<and> (noise_free U (jan_clean_store_name U x) \<longrightarrow>
      jan_clean_store_name U (jan_clean_store_name U x) = jan_clean_store_name U x)"
  using noise_free_fixed by blast

text \<open>The theorem at \<^verbatim>\<open>Butik: Shoe World\<close>, whose normal form \<^verbatim>\<open>Shoe World\<close> is free of noise.\<close>

theorem normalizer_idempotent_witness:
  "noise_free latin1 (westfield_clean_store_name latin1 (u ''Butik: Shoe World''))
   \<and> westfield_clean_store_name latin1 (westfield_clean_store_name latin1 (u ''Butik: Shoe World''))
     = westfield_clean_store_name latin1 (u ''Butik: Shoe World'')
   \<and> noise_free latin1 (jan_clean_store_name latin1 (u ''Butik: Shoe World''))
   \<and> jan_clean_store_name latin1 (jan_clean_store_name latin1 (u ''Butik: Shoe World''))
     = jan_clean_store_name latin1 (u ''Butik: Shoe World'')"
proof -
  have w: "westfield_clean_store_name latin1 (u ''Butik: Shoe World'') = u ''Shoe World''"
    unfolding eval_clean Let_def by (simp add: eval_tables eval_regex eval_patterns)
  have j: "jan_clean_store_name latin1 (u ''Butik: Shoe World'') = u ''Shoe World''"
    unfolding eval_clean Let_def by (simp add: eval_tables eval_regex eval_patterns)
  have n: "noise_free latin1 (u ''Shoe World'')"
    unfolding eval_noise by (simp add: eval_tables eval_regex eval_patterns)
  have nw: "noise_free latin1 (westfield_clean_store_name latin1 (u ''Butik: Shoe World''))"
    unfolding w by (rule n)
  have nj: "noise_free latin1 (jan_clean_store_name latin1 (u ''Butik: Shoe World''))"
    unfolding j by (rule n)
  show ?thesis
    using normalizer_idempotent_on_noise_free [of latin1 "u ''Butik: Shoe World''"] nw nj
    by blast
qed

text \<open>C1 as stated fails, for both normalizers, at \<^verbatim>\<open>Butik Shop X\<close>.\<close>

theorem normalizer_not_idempotent:
  "westfield_clean_store_name latin1 (westfield_clean_store_name latin1 (u ''Butik Shop X''))
     \<noteq> westfield_clean_store_name latin1 (u ''Butik Shop X'')
   \<and> jan_clean_store_name latin1 (jan_clean_store_name latin1 (u ''Butik Shop X''))
     \<noteq> jan_clean_store_name latin1 (u ''Butik Shop X'')"
  unfolding eval_clean Let_def by (simp add: eval_tables eval_regex eval_patterns)

section \<open>The per-site list\<close>

text \<open>
  C2, as amended. \<^verbatim>\<open>per_unique\<close> keeps the first occurrence of every name, in the
  order of the input, where two names are the same only when they are equal as strings
  (upper and lower case differ); it then drops the empty name and every name that,
  trimmed and in lower case, is \<^verbatim>\<open>butik\<close> or \<^verbatim>\<open>butiker\<close>. Its names are distinct. On
  \<^verbatim>\<open>Zara\<close>, \<^verbatim>\<open>zara\<close>, \<^verbatim>\<open>H&M\<close>, \<^verbatim>\<open>Butik\<close> it gives \<^verbatim>\<open>Zara\<close>, \<^verbatim>\<open>zara\<close>, \<^verbatim>\<open>H&M\<close>.
\<close>

theorem per_unique_first_seen:
  "per_unique U names =
     filter (\<lambda>x. x \<noteq> [] \<and> lower U (strip U x) \<notin> {u ''butik'', u ''butiker''}) (first_seen names)
   \<and> distinct (per_unique U names)
   \<and> per_unique latin1 [u ''Zara'', u ''zara'', u ''H&M'', u ''Butik'']
       = [u ''Zara'', u ''zara'', u ''H&M'']"
proof -
  have a: "per_unique U names =
     filter (\<lambda>x. x \<noteq> [] \<and> lower U (strip U x) \<notin> {u ''butik'', u ''butiker''}) (first_seen names)"
    by (simp add: per_unique_def dedup_names_first_seen stop_headers_def)
  have b: "distinct (per_unique U names)"
    unfolding a by (simp add: first_seen_props)
  have c: "per_unique latin1 [u ''Zara'', u ''zara'', u ''H&M'', u ''Butik'']
       = [u ''Zara'', u ''zara'', u ''H&M'']"
    by (simp add: per_unique_def dedup_names_def dedup_step_def stop_headers_def eval_tables)
  show ?thesis using a b c by blast
qed

text \<open>C2 as stated fails: the result on its example is not \<^verbatim>\<open>Zara\<close>, \<^verbatim>\<open>H&M\<close>.\<close>

theorem per_unique_keeps_case_variants:
  "per_unique latin1 [u ''Zara'', u ''zara'', u ''H&M'', u ''Butik''] \<noteq> [u ''Zara'', u ''H&M'']"
  by (simp add: per_unique_def dedup_names_def dedup_step_def stop_headers_def eval_tables)

section \<open>The two normalizers compared\<close>

text \<open>
  C3, as amended. The two \<^verbatim>\<open>clean_store_name\<close> functions share the steps up to the
  removal of a lone \<^verbatim>\<open>plan\<close> and the final collapse of \<^verbatim>\<open>X X\<close>; only the one of
  \<^verbatim>\<open>westfield_scraper.py\<close> truncates at a pipe, at a location word and at a street name
  and removes a trailing number. They return the same name for every input on whose
  text after the shared steps none of these four patterns matches.
\<close>

theorem normalizers_agree_when_location_free:
  "location_free U (clean_common U x) \<longrightarrow>
     westfield_clean_store_name U x = jan_clean_store_name U x"
  by (simp add: westfield_clean_store_name_def jan_clean_store_name_def clean_location_free)

text \<open>The theorem at \<^verbatim>\<open>Store (Closed)\<close>, whose text after the shared steps is \<^verbatim>\<open>Store\<close>.\<close>

theorem normalizers_agree_witness:
  "location_free latin1 (clean_common latin1 (u ''Store (Closed)''))
   \<and> westfield_clean_store_name latin1 (u ''Store (Closed)'')
     = jan_clean_store_name latin1 (u ''Store (Closed)'')"
proof -
  have c: "clean_common latin1 (u ''Store (Closed)'') = u ''Store''"
    unfolding eval_clean Let_def by (simp add: eval_tables eval_regex eval_patterns)
  have n: "location_free latin1 (u ''Store'')"
    unfolding eval_noise by (simp add: eval_tables eval_regex eval_patterns)
  have l: "location_free latin1 (clean_common latin1 (u ''Store (Closed)''))"
    unfolding c by (rule n)
  show ?thesis
    using normalizers_agree_when_location_free [of latin1 "u ''Store (Closed)''"] l by blast
qed

text \<open>
  C3 as stated fails at \<^verbatim>\<open>Name | Location\<close>: \<^verbatim>\<open>webscraper_jan.py\<close> does not truncate
  at the pipe.
\<close>

theorem normalizers_differ_on_pipe:
  "westfield_clean_store_name latin1 (u ''Name | Location'')
     \<noteq> jan_clean_store_name latin1 (u ''Name | Location'')"
  unfolding eval_clean Let_def by (simp add: eval_tables eval_regex eval_patterns)

section \<open>A site without names\<close>

text \<open>
  C4, as amended. A site whose extraction (fallback included) returns no name writes the
  empty list to its per-site file and adds to the grouped view its header line and no
  numbered line. The grouped lines of the other sites are unchanged: the view is the
  lines of the sites before it, its header, and the lines of the sites after it. Every
  file with another name is as in the run without the site. When the run without the
  site leaves no file with the name of its file (no other site has its slug, and the
  directory had no such file), the unique view is that of the run without the site;
  otherwise its empty file replaces the other content of that name.
\<close>

theorem empty_site_contribution:
  "extract_store_links_page U (site_page st) = Returns [] \<longrightarrow>
     main_step U r st =
       Returns \<lparr> files = write_file (per_filename (slug st)) (Data []) (files r),
         merged_display = merged_display r @ [u ''== '' @ site_title U st @ u '' ==''] \<rparr>
     \<and> snd (westfield_main U d0 (ss1 @ st # ss2)) =
        (case snd (westfield_main U d1 ss1) of
           Raises \<Rightarrow> Raises
         | Returns D1 \<Rightarrow>
             (case snd (westfield_main U d2 ss2) of
                Raises \<Rightarrow> Raises
              | Returns D2 \<Rightarrow> Returns (D1 @ [u ''== '' @ site_title U st @ u '' ==''] @ D2)))
     \<and> (\<forall>n. n \<noteq> per_filename (slug st) \<longrightarrow>
           map_of (fst (westfield_main U d0 (ss1 @ st # ss2))) n
             = map_of (fst (westfield_main U d0 (ss1 @ ss2))) n)
     \<and> (per_filename (slug st) \<notin> fst ` set (fst (westfield_main U d0 (ss1 @ ss2))) \<longrightarrow>
          export_unique U (fst (westfield_main U d0 (ss1 @ st # ss2)))
            = export_unique U (fst (westfield_main U d0 (ss1 @ ss2))))"
proof (intro impI conjI)
  assume e: "extract_store_links_page U (site_page st) = Returns []"
  show "main_step U r st =
       Returns \<lparr> files = write_file (per_filename (slug st)) (Data []) (files r),
         merged_display = merged_display r @ [u ''== '' @ site_title U st @ u '' ==''] \<rparr>"
    by (rule main_step_empty [OF e])
  show "snd (westfield_main U d0 (ss1 @ st # ss2)) =
        (case snd (westfield_main U d1 ss1) of
           Raises \<Rightarrow> Raises
         | Returns D1 \<Rightarrow>
             (case snd (westfield_main U d2 ss2) of
                Raises \<Rightarrow> Raises
              | Returns D2 \<Rightarrow> Returns (D1 @ [u ''== '' @ site_title U st @ u '' ==''] @ D2)))"
    by (rule empty_site_display [OF e])
  show "\<forall>n. n \<noteq> per_filename (slug st) \<longrightarrow>
           map_of (fst (westfield_main U d0 (ss1 @ st # ss2))) n
             = map_of (fst (westfield_main U d0 (ss1 @ ss2))) n"
    by (rule conjunct1 [OF empty_site_files [OF e]])
next
  assume e: "extract_store_links_page U (site_page st) = Returns []"
    and nin: "per_filename (slug st) \<notin> fst ` set (fst (westfield_main U d0 (ss1 @ ss2)))"
  show "export_unique U (fst (westfield_main U d0 (ss1 @ st # ss2)))
            = export_unique U (fst (westfield_main U d0 (ss1 @ ss2)))"
    by (rule export_unique_rows) (rule mp [OF conjunct2 [OF empty_site_files [OF e]] nin])
qed

text \<open>
  The theorem at a run of three sites, \<^verbatim>\<open>a\<close> with the store \<^verbatim>\<open>Zara\<close>, \<^verbatim>\<open>b\<close> with an
  anchor that the filter rejects and an anchor that raises, and \<^verbatim>\<open>c\<close> with the store
  \<^verbatim>\<open>Nike\<close>.
\<close>

theorem empty_site_contribution_witness:
  "extract_store_links_page latin1
       \<lparr> query_anchors = Returns [\<lparr> inner_text = Returns (Some (u ''About'')), get_href = Returns (Some (u ''/about-us'')) \<rparr>,
            \<lparr> inner_text = Raises, get_href = Returns None \<rparr>], query_candidates = Returns [] \<rparr>
     = Returns []
   \<and> per_filename (u ''b'') \<notin> fst ` set (fst (westfield_main latin1 []
      ([\<lparr> slug = u ''a'', netloc = u ''a.se'', page_title = Returns (u ''A''),
          site_page = \<lparr> query_anchors = Returns [\<lparr> inner_text = Returns (Some (u ''Zara'')), get_href = Returns (Some (u ''/butik/zara'')) \<rparr>], query_candidates = Returns [] \<rparr> \<rparr>]
       @ [\<lparr> slug = u ''c'', netloc = u ''c.se'', page_title = Returns (u ''C''),
          site_page = \<lparr> query_anchors = Returns [\<lparr> inner_text = Returns (Some (u ''Nike'')), get_href = Returns (Some (u ''/se/butiker/nike'')) \<rparr>], query_candidates = Returns [] \<rparr> \<rparr>])))
   \<and> export_unique latin1 (fst (westfield_main latin1 []
      ([\<lparr> slug = u ''a'', netloc = u ''a.se'', page_title = Returns (u ''A''),
          site_page = \<lparr> query_anchors = Returns [\<lparr> inner_text = Returns (Some (u ''Zara'')), get_href = Returns (Some (u ''/butik/zara'')) \<rparr>], query_candidates = Returns [] \<rparr> \<rparr>]
       @ \<lparr> slug = u ''b'', netloc = u ''b.se'', page_title = Returns (u ''B''),
          site_page = \<lparr> query_anchors = Returns [\<lparr> inner_text = Returns (Some (u ''About'')), get_href = Returns (Some (u ''/about-us'')) \<rparr>,
            \<lparr> inner_text = Raises, get_href = Returns None \<rparr>], query_candidates = Returns [] \<rparr> \<rparr>
       # [\<lparr> slug = u ''c'', netloc = u ''c.se'', page_title = Returns (u ''C''),
          site_page = \<lparr> query_anchors = Returns [\<lparr> inner_text = Returns (Some (u ''Nike'')), get_href = Returns (Some (u ''/se/butiker/nike'')) \<rparr>], query_candidates = Returns [] \<rparr> \<rparr>])))
     = export_unique latin1 (fst (westfield_main latin1 []
      ([\<lparr> slug = u ''a'', netloc = u ''a.se'', page_title = Returns (u ''A''),
          site_page = \<lparr> query_anchors = Returns [\<lparr> inner_text = Returns (Some (u ''Zara'')), get_href = Returns (Some (u ''/butik/zara'')) \<rparr>], query_candidates = Returns [] \<rparr> \<rparr>]
       @ [\<lparr> slug = u ''c'', netloc = u ''c.se'', page_title = Returns (u ''C''),
          site_page = \<lparr> query_anchors = Returns [\<lparr> inner_text = Returns (Some (u ''Nike'')), get_href = Returns (Some (u ''/se/butiker/nike'')) \<rparr>], query_candidates = Returns [] \<rparr> \<rparr>])))
   \<and> export_unique latin1 (fst (westfield_main latin1 []
      ([\<lparr> slug = u ''a'', netloc = u ''a.se'', page_title = Returns (u ''A''),
          site_page = \<lparr> query_anchors = Returns [\<lparr> inner_text = Returns (Some (u ''Zara'')), get_href = Returns (Some (u ''/butik/zara'')) \<rparr>], query_candidates = Returns [] \<rparr> \<rparr>]
       @ [\<lparr> slug = u ''c'', netloc = u ''c.se'', page_title = Returns (u ''C''),
          site_page = \<lparr> query_anchors = Returns [\<lparr> inner_text = Returns (Some (u ''Nike'')), get_href = Returns (Some (u ''/se/butiker/nike'')) \<rparr>], query_candidates = Returns [] \<rparr> \<rparr>])))
     = [(u ''Zara'', u ''a''), (u ''Nike'', u ''c'')]
   \<and> snd (westfield_main latin1 []
      ([\<lparr> slug = u ''a'', netloc = u ''a.se'', page_title = Returns (u ''A''),
          site_page = \<lparr> query_anchors = Returns [\<lparr> inner_text = Returns (Some (u ''Zara'')), get_href = Returns (Some (u ''/butik/zara'')) \<rparr>], query_candidates = Returns [] \<rparr> \<rparr>]
       @ \<lparr> slug = u ''b'', netloc = u ''b.se'', page_title = Returns (u ''B''),
          site_page = \<lparr> query_anchors = Returns [\<lparr> inner_text = Returns (Some (u ''About'')), get_href = Returns (Some (u ''/about-us'')) \<rparr>,
            \<lparr> inner_text = Raises, get_href = Returns None \<rparr>], query_candidates = Returns [] \<rparr> \<rparr>
       # [\<lparr> slug = u ''c'', netloc = u ''c.se'', page_title = Returns (u ''C''),
          site_page = \<lparr> query_anchors = Returns [\<lparr> inner_text = Returns (Some (u ''Nike'')), get_href = Returns (Some (u ''/se/butiker/nike'')) \<rparr>], query_candidates = Returns [] \<rparr> \<rparr>]))
     = Returns [u ''== A =='', u ''1. Zara'', u ''== B =='', u ''== C =='', u ''1. Nike'']"
proof -
  have e: "extract_store_links_page latin1 (site_page
      \<lparr> slug = u ''b'', netloc = u ''b.se'', page_title = Returns (u ''B''),
          site_page = \<lparr> query_anchors = Returns [\<lparr> inner_text = Returns (Some (u ''About'')), get_href = Returns (Some (u ''/about-us'')) \<rparr>,
            \<lparr> inner_text = Raises, get_href = Returns None \<rparr>], query_candidates = Returns [] \<rparr> \<rparr>)
     = Returns []"
    unfolding site.select_convs by (rule page_without_names)
  have fo: "fst (westfield_main latin1 []
      ([\<lparr> slug = u ''a'', netloc = u ''a.se'', page_title = Returns (u ''A''),
          site_page = \<lparr> query_anchors = Returns [\<lparr> inner_text = Returns (Some (u ''Zara'')), get_href = Returns (Some (u ''/butik/zara'')) \<rparr>], query_candidates = Returns [] \<rparr> \<rparr>]
       @ [\<lparr> slug = u ''c'', netloc = u ''c.se'', page_title = Returns (u ''C''),
          site_page = \<lparr> query_anchors = Returns [\<lparr> inner_text = Returns (Some (u ''Nike'')), get_href = Returns (Some (u ''/se/butiker/nike'')) \<rparr>], query_candidates = Returns [] \<rparr> \<rparr>]))
     = [(per_filename (u ''a''), Data [u ''Zara'']), (per_filename (u ''c''), Data [u ''Nike''])]"
    unfolding append.simps
    unfolding westfield_main_def main_loop.simps main_step_def Let_def site.select_convs page_zara_names page_nike_names
    by (simp add: eval_main eval_tables)
  have nin: "per_filename (u ''b'') \<notin> fst ` set (fst (westfield_main latin1 []
      ([\<lparr> slug = u ''a'', netloc = u ''a.se'', page_title = Returns (u ''A''),
          site_page = \<lparr> query_anchors = Returns [\<lparr> inner_text = Returns (Some (u ''Zara'')), get_href = Returns (Some (u ''/butik/zara'')) \<rparr>], query_candidates = Returns [] \<rparr> \<rparr>]
       @ [\<lparr> slug = u ''c'', netloc = u ''c.se'', page_title = Returns (u ''C''),
          site_page = \<lparr> query_anchors = Returns [\<lparr> inner_text = Returns (Some (u ''Nike'')), get_href = Returns (Some (u ''/se/butiker/nike'')) \<rparr>], query_candidates = Returns [] \<rparr> \<rparr>])))"
    unfolding fo by (simp add: per_filename_def u_def)
  have nin': "per_filename (slug
      \<lparr> slug = u ''b'', netloc = u ''b.se'', page_title = Returns (u ''B''),
          site_page = \<lparr> query_anchors = Returns [\<lparr> inner_text = Returns (Some (u ''About'')), get_href = Returns (Some (u ''/about-us'')) \<rparr>,
            \<lparr> inner_text = Raises, get_href = Returns None \<rparr>], query_candidates = Returns [] \<rparr> \<rparr>)
      \<notin> fst ` set (fst (westfield_main latin1 []
      ([\<lparr> slug = u ''a'', netloc = u ''a.se'', page_title = Returns (u ''A''),
          site_page = \<lparr> query_anchors = Returns [\<lparr> inner_text = Returns (Some (u ''Zara'')), get_href = Returns (Some (u ''/butik/zara'')) \<rparr>], query_candidates = Returns [] \<rparr> \<rparr>]
       @ [\<lparr> slug = u ''c'', netloc = u ''c.se'', page_title = Returns (u ''C''),
          site_page = \<lparr> query_anchors = Returns [\<lparr> inner_text = Returns (Some (u ''Nike'')), get_href = Returns (Some (u ''/se/butiker/nike'')) \<rparr>], query_candidates = Returns [] \<rparr> \<rparr>])))"
    unfolding site.select_convs by (rule nin)
  note t = empty_site_contribution [of latin1
      "\<lparr> slug = u ''b'', netloc = u ''b.se'', page_title = Returns (u ''B''),
          site_page = \<lparr> query_anchors = Returns [\<lparr> inner_text = Returns (Some (u ''About'')), get_href = Returns (Some (u ''/about-us'')) \<rparr>,
            \<lparr> inner_text = Raises, get_href = Returns None \<rparr>], query_candidates = Returns [] \<rparr> \<rparr>"
      "\<lparr> files = [], merged_display = [] \<rparr>" "[]"
      "[\<lparr> slug = u ''a'', netloc = u ''a.se'', page_title = Returns (u ''A''),
          site_page = \<lparr> query_anchors = Returns [\<lparr> inner_text = Returns (Some (u ''Zara'')), get_href = Returns (Some (u ''/butik/zara'')) \<rparr>], query_candidates = Returns [] \<rparr> \<rparr>]"
      "[\<lparr> slug = u ''c'', netloc = u ''c.se'', page_title = Returns (u ''C''),
          site_page = \<lparr> query_anchors = Returns [\<lparr> inner_text = Returns (Some (u ''Nike'')), get_href = Returns (Some (u ''/se/butiker/nike'')) \<rparr>], query_candidates = Returns [] \<rparr> \<rparr>]" "[]" "[]"]
  have x: "export_unique latin1 (fst (westfield_main latin1 []
      ([\<lparr> slug = u ''a'', netloc = u ''a.se'', page_title = Returns (u ''A''),
          site_page = \<lparr> query_anchors = Returns [\<lparr> inner_text = Returns (Some (u ''Zara'')), get_href = Returns (Some (u ''/butik/zara'')) \<rparr>], query_candidates = Returns [] \<rparr> \<rparr>]
       @ \<lparr> slug = u ''b'', netloc = u ''b.se'', page_title = Returns (u ''B''),
          site_page = \<lparr> query_anchors = Returns [\<lparr> inner_text = Returns (Some (u ''About'')), get_href = Returns (Some (u ''/about-us'')) \<rparr>,
            \<lparr> inner_text = Raises, get_href = Returns None \<rparr>], query_candidates = Returns [] \<rparr> \<rparr>
       # [\<lparr> slug = u ''c'', netloc = u ''c.se'', page_title = Returns (u ''C''),
          site_page = \<lparr> query_anchors = Returns [\<lparr> inner_text = Returns (Some (u ''Nike'')), get_href = Returns (Some (u ''/se/butiker/nike'')) \<rparr>], query_candidates = Returns [] \<rparr> \<rparr>])))
     = export_unique latin1 (fst (westfield_main latin1 []
      ([\<lparr> slug = u ''a'', netloc = u ''a.se'', page_title = Returns (u ''A''),
          site_page = \<lparr> query_anchors = Returns [\<lparr> inner_text = Returns (Some (u ''Zara'')), get_href = Returns (Some (u ''/butik/zara'')) \<rparr>], query_candidates = Returns [] \<rparr> \<rparr>]
       @ [\<lparr> slug = u ''c'', netloc = u ''c.se'', page_title = Returns (u ''C''),
          site_page = \<lparr> query_anchors = Returns [\<lparr> inner_text = Returns (Some (u ''Nike'')), get_href = Returns (Some (u ''/se/butiker/nike'')) \<rparr>], query_candidates = Returns [] \<rparr> \<rparr>])))"
    by (rule mp [OF conjunct2 [OF conjunct2 [OF conjunct2 [OF mp [OF t e]]]] nin'])
  have xo: "export_unique latin1 (fst (westfield_main latin1 []
      ([\<lparr> slug = u ''a'', netloc = u ''a.se'', page_title = Returns (u ''A''),
          site_page = \<lparr> query_anchors = Returns [\<lparr> inner_text = Returns (Some (u ''Zara'')), get_href = Returns (Some (u ''/butik/zara'')) \<rparr>], query_candidates = Returns [] \<rparr> \<rparr>]
       @ [\<lparr> slug = u ''c'', netloc = u ''c.se'', page_title = Returns (u ''C''),
          site_page = \<lparr> query_anchors = Returns [\<lparr> inner_text = Returns (Some (u ''Nike'')), get_href = Returns (Some (u ''/se/butiker/nike'')) \<rparr>], query_candidates = Returns [] \<rparr> \<rparr>])))
     = [(u ''Zara'', u ''a''), (u ''Nike'', u ''c'')]"
    unfolding fo by (simp add: eval_export per_filename_def eval_tables Let_def)
  have dl: "snd (westfield_main latin1 []
      ([\<lparr> slug = u ''a'', netloc = u ''a.se'', page_title = Returns (u ''A''),
          site_page = \<lparr> query_anchors = Returns [\<lparr> inner_text = Returns (Some (u ''Zara'')), get_href = Returns (Some (u ''/butik/zara'')) \<rparr>], query_candidates = Returns [] \<rparr> \<rparr>]
       @ \<lparr> slug = u ''b'', netloc = u ''b.se'', page_title = Returns (u ''B''),
          site_page = \<lparr> query_anchors = Returns [\<lparr> inner_text = Returns (Some (u ''About'')), get_href = Returns (Some (u ''/about-us'')) \<rparr>,
            \<lparr> inner_text = Raises, get_href = Returns None \<rparr>], query_candidates = Returns [] \<rparr> \<rparr>
       # [\<lparr> slug = u ''c'', netloc = u ''c.se'', page_title = Returns (u ''C''),
          site_page = \<lparr> query_anchors = Returns [\<lparr> inner_text = Returns (Some (u ''Nike'')), get_href = Returns (Some (u ''/se/butiker/nike'')) \<rparr>], query_candidates = Returns [] \<rparr> \<rparr>]))
     = Returns [u ''== A =='', u ''1. Zara'', u ''== B =='', u ''== C =='', u ''1. Nike'']"
    unfolding append.simps
    unfolding westfield_main_def main_loop.simps main_step_def Let_def site.select_convs page_zara_names page_nike_names
      page_without_names
    by (simp add: eval_main eval_tables)
  show ?thesis
    by (rule conjI [OF page_without_names conjI [OF nin conjI [OF x conjI [OF xo dl]]]])
qed

text \<open>
  C4 as stated fails: a site without names contributes its header line to the grouped
  view, and when it has the slug of an earlier site its empty file replaces that
  site's, whose names then leave the unique view.
\<close>

theorem empty_site_header_and_overwrite:
  "extract_store_links_page latin1
       \<lparr> query_anchors = Returns [\<lparr> inner_text = Returns (Some (u ''About'')), get_href = Returns (Some (u ''/about-us'')) \<rparr>,
            \<lparr> inner_text = Raises, get_href = Returns None \<rparr>], query_candidates = Returns [] \<rparr>
     = Returns []
   \<and> snd (westfield_main latin1 []
      [\<lparr> slug = u ''b'', netloc = u ''b.se'', page_title = Returns (u ''B''),
          site_page = \<lparr> query_anchors = Returns [\<lparr> inner_text = Returns (Some (u ''About'')), get_href = Returns (Some (u ''/about-us'')) \<rparr>,
            \<lparr> inner_text = Raises, get_href = Returns None \<rparr>], query_candidates = Returns [] \<rparr> \<rparr>])
     = Returns [u ''== B =='']
   \<and> export_unique latin1 (fst (westfield_main latin1 []
      [\<lparr> slug = u ''a_se_butik'', netloc = u ''a.se'', page_title = Returns (u ''A''),
          site_page = \<lparr> query_anchors = Returns [\<lparr> inner_text = Returns (Some (u ''Zara'')), get_href = Returns (Some (u ''/butik/zara'')) \<rparr>], query_candidates = Returns [] \<rparr> \<rparr>]))
     = [(u ''Zara'', u ''a_se_butik'')]
   \<and> export_unique latin1 (fst (westfield_main latin1 []
      [\<lparr> slug = u ''a_se_butik'', netloc = u ''a.se'', page_title = Returns (u ''A''),
          site_page = \<lparr> query_anchors = Returns [\<lparr> inner_text = Returns (Some (u ''Zara'')), get_href = Returns (Some (u ''/butik/zara'')) \<rparr>], query_candidates = Returns [] \<rparr> \<rparr>,
       \<lparr> slug = u ''a_se_butik'', netloc = u ''a.se'', page_title = Returns (u ''A''),
          site_page = \<lparr> query_anchors = Returns [\<lparr> inner_text = Returns (Some (u ''About'')), get_href = Returns (Some (u ''/about-us'')) \<rparr>,
            \<lparr> inner_text = Raises, get_href = Returns None \<rparr>], query_candidates = Returns [] \<rparr> \<rparr>]))
     = []"
proof -
  have b: "snd (westfield_main latin1 []
      [\<lparr> slug = u ''b'', netloc = u ''b.se'', page_title = Returns (u ''B''),
          site_page = \<lparr> query_anchors = Returns [\<lparr> inner_text = Returns (Some (u ''About'')), get_href = Returns (Some (u ''/about-us'')) \<rparr>,
            \<lparr> inner_text = Raises, get_href = Returns None \<rparr>], query_candidates = Returns [] \<rparr> \<rparr>])
     = Returns [u ''== B =='']"
    unfolding westfield_main_def main_loop.simps main_step_def Let_def site.select_convs page_without_names
    by (simp add: eval_main eval_tables)
  have f1: "fst (westfield_main latin1 []
      [\<lparr> slug = u ''a_se_butik'', netloc = u ''a.se'', page_title = Returns (u ''A''),
          site_page = \<lparr> query_anchors = Returns [\<lparr> inner_text = Returns (Some (u ''Zara'')), get_href = Returns (Some (u ''/butik/zara'')) \<rparr>], query_candidates = Returns [] \<rparr> \<rparr>])
     = [(per_filename (u ''a_se_butik''), Data [u ''Zara''])]"
    unfolding westfield_main_def main_loop.simps main_step_def Let_def site.select_convs page_zara_names
    by (simp add: eval_main eval_tables)
  have f2: "fst (westfield_main latin1 []
      [\<lparr> slug = u ''a_se_butik'', netloc = u ''a.se'', page_title = Returns (u ''A''),
          site_page = \<lparr> query_anchors = Returns [\<lparr> inner_text = Returns (Some (u ''Zara'')), get_href = Returns (Some (u ''/butik/zara'')) \<rparr>], query_candidates = Returns [] \<rparr> \<rparr>,
       \<lparr> slug = u ''a_se_butik'', netloc = u ''a.se'', page_title = Returns (u ''A''),
          site_page = \<lparr> query_anchors = Returns [\<lparr> inner_text = Returns (Some (u ''About'')), get_href = Returns (Some (u ''/about-us'')) \<rparr>,
            \<lparr> inner_text = Raises, get_href = Returns None \<rparr>], query_candidates = Returns [] \<rparr> \<rparr>])
     = [(per_filename (u ''a_se_butik''), Data [])]"
    unfolding westfield_main_def main_loop.simps main_step_def Let_def site.select_convs page_zara_names page_without_names
    by (simp add: eval_main eval_tables)
  have x1: "export_unique latin1 [(per_filename (u ''a_se_butik''), Data [u ''Zara''])]
     = [(u ''Zara'', u ''a_se_butik'')]"
    by (simp add: eval_export per_filename_def eval_tables Let_def)
  have x2: "export_unique latin1 [(per_filename (u ''a_se_butik''), Data [])] = []"
    by (simp add: eval_export per_filename_def eval_tables Let_def)
  show ?thesis
    unfolding f1 f2 by (rule conjI [OF page_without_names conjI [OF b conjI [OF x1 x2]]])
qed

section \<open>White space in the names returned\<close>

text \<open>
  C5. The normalizer of \<^verbatim>\<open>westfield_scraper.py\<close> returns names that are not
  whitespace-normalized: the example of its own comment, a name followed by
  \<^verbatim>\<open>Gatuplan | Postgatan\<close>, keeps the space before the location word, and the removal
  of a lone \<^verbatim>\<open>plan\<close> between two words leaves two spaces.
\<close>

theorem normalizer_leaves_white_space:
  "westfield_clean_store_name latin1 (u ''Zara Gatuplan | Postgatan'') = u ''Zara ''
   \<and> westfield_clean_store_name latin1 (u ''a plan b'') = u ''a  b''"
  unfolding eval_clean Let_def by (simp add: eval_tables eval_regex eval_patterns)

section \<open>The unique view\<close>

text \<open>
  C6, as amended. The unique sheet scans the per-site files in the sorted order of
  their names, which need not be the order in which the scraper processed the sites,
  and the names of a file in their order; of the rows with the same key (the name
  trimmed and in lower case) it keeps the first, as the pair of the name and the source
  derived from the file name, and it skips a row whose key is empty. The keys of the
  view are distinct. For the source \<^verbatim>\<open>A\<close> with \<^verbatim>\<open>Zara\<close>, \<^verbatim>\<open>COS\<close> and the source \<^verbatim>\<open>B\<close>
  with \<^verbatim>\<open>zara\<close>, \<^verbatim>\<open>Nike\<close>, whose files sort as \<^verbatim>\<open>A\<close> then \<^verbatim>\<open>B\<close>, the view is
  \<^verbatim>\<open>(Zara, A)\<close>, \<^verbatim>\<open>(COS, A)\<close>, \<^verbatim>\<open>(Nike, B)\<close>, in whichever order the files were written.
\<close>

theorem export_unique_sorted_files:
  "export_unique U d =
     map (\<lambda>row. (snd row, fst row))
       (first_by_key (\<lambda>row. lower U (strip U (snd row)))
          (filter (\<lambda>row. lower U (strip U (snd row)) \<noteq> [])
             (merged_rows (map (\<lambda>n. (slug_of_file n, load_json d n))
                (sort (filter glob_match (remdups (map fst d))))))))
   \<and> distinct (map (\<lambda>e. lower U (strip U (fst e))) (export_unique U d))
   \<and> export_unique latin1
        [(per_filename (u ''A''), Data [u ''Zara'', u ''COS'']),
         (per_filename (u ''B''), Data [u ''zara'', u ''Nike''])]
       = [(u ''Zara'', u ''A''), (u ''COS'', u ''A''), (u ''Nike'', u ''B'')]
   \<and> export_unique latin1
        [(per_filename (u ''B''), Data [u ''zara'', u ''Nike'']),
         (per_filename (u ''A''), Data [u ''Zara'', u ''COS''])]
       = [(u ''Zara'', u ''A''), (u ''COS'', u ''A''), (u ''Nike'', u ''B'')]"
proof -
  have a: "export_unique U d =
     map (\<lambda>row. (snd row, fst row))
       (first_by_key (\<lambda>row. lower U (strip U (snd row)))
          (filter (\<lambda>row. lower U (strip U (snd row)) \<noteq> [])
             (merged_rows (map (\<lambda>n. (slug_of_file n, load_json d n))
                (sort (filter glob_match (remdups (map fst d))))))))"
    by (simp add: export_unique_def export_sources_def json_files_def unique_view_def unique_fold)
  have b: "distinct (map (\<lambda>e. lower U (strip U (fst e))) (export_unique U d))"
    unfolding a
    using distinct_first_by_key [of "\<lambda>row. lower U (strip U (snd row))"]
    by (simp add: comp_def)
  have c: "export_unique latin1
        [(per_filename (u ''A''), Data [u ''Zara'', u ''COS'']),
         (per_filename (u ''B''), Data [u ''zara'', u ''Nike''])]
       = [(u ''Zara'', u ''A''), (u ''COS'', u ''A''), (u ''Nike'', u ''B'')]"
    by (simp add: export_unique_def export_sources_def json_files_def glob_match_def
        slug_of_file_def load_json_def per_filename_def replace.simps
        unique_view_def merged_rows_def unique_step_def eval_tables)
  have d: "export_unique latin1
        [(per_filename (u ''B''), Data [u ''zara'', u ''Nike'']),
         (per_filename (u ''A''), Data [u ''Zara'', u ''COS''])]
       = [(u ''Zara'', u ''A''), (u ''COS'', u ''A''), (u ''Nike'', u ''B'')]"
    by (simp add: export_unique_def export_sources_def json_files_def glob_match_def
        slug_of_file_def load_json_def per_filename_def replace.simps
        unique_view_def merged_rows_def unique_step_def eval_tables)
  show ?thesis using a b c d by blast
qed

text \<open>
  C6 as stated fails: the scraper processes the site \<^verbatim>\<open>zzz\<close> with \<^verbatim>\<open>Zara\<close> and then the
  site \<^verbatim>\<open>aaa\<close> with \<^verbatim>\<open>zara\<close>; the export reads the file of \<^verbatim>\<open>aaa\<close> first, and the
  unique view is \<^verbatim>\<open>(zara, aaa)\<close>.
\<close>

theorem unique_view_follows_file_names:
  "fst (westfield_main latin1 []
      [\<lparr> slug = u ''zzz'', netloc = u ''zzz'', page_title = Returns (u ''Z''),
         site_page = \<lparr> query_anchors = Returns [\<lparr> inner_text = Returns (Some (u ''Zara'')),
                          get_href = Returns (Some (u ''/butik/zara'')) \<rparr>],
                       query_candidates = Returns [] \<rparr> \<rparr>,
       \<lparr> slug = u ''aaa'', netloc = u ''aaa'', page_title = Returns (u ''A''),
         site_page = \<lparr> query_anchors = Returns [\<lparr> inner_text = Returns (Some (u ''zara'')),
                          get_href = Returns (Some (u ''/butik/zara'')) \<rparr>],
                       query_candidates = Returns [] \<rparr> \<rparr>])
     = [(per_filename (u ''zzz''), Data [u ''Zara'']), (per_filename (u ''aaa''), Data [u ''zara''])]
   \<and> export_unique latin1
        [(per_filename (u ''zzz''), Data [u ''Zara'']), (per_filename (u ''aaa''), Data [u ''zara''])]
     = [(u ''zara'', u ''aaa'')]"
proof -
  have a: "fst (westfield_main latin1 []
      [\<lparr> slug = u ''zzz'', netloc = u ''zzz'', page_title = Returns (u ''Z''),
         site_page = \<lparr> query_anchors = Returns [\<lparr> inner_text = Returns (Some (u ''Zara'')),
                          get_href = Returns (Some (u ''/butik/zara'')) \<rparr>],
                       query_candidates = Returns [] \<rparr> \<rparr>,
       \<lparr> slug = u ''aaa'', netloc = u ''aaa'', page_title = Returns (u ''A''),
         site_page = \<lparr> query_anchors = Returns [\<lparr> inner_text = Returns (Some (u ''zara'')),
                          get_href = Returns (Some (u ''/butik/zara'')) \<rparr>],
                       query_candidates = Returns [] \<rparr> \<rparr>])
     = [(per_filename (u ''zzz''), Data [u ''Zara'']), (per_filename (u ''aaa''), Data [u ''zara''])]"
  proof -
    have z: "extract_store_links_page latin1
          \<lparr> query_anchors = Returns [\<lparr> inner_text = Returns (Some (u ''Zara'')),
                          get_href = Returns (Some (u ''/butik/zara'')) \<rparr>],
                       query_candidates = Returns [] \<rparr> = Returns [u ''Zara'']"
      unfolding eval_page eval_clean Let_def
      by (simp add: eval_tables eval_regex eval_patterns)
    have y: "extract_store_links_page latin1
          \<lparr> query_anchors = Returns [\<lparr> inner_text = Returns (Some (u ''zara'')),
                          get_href = Returns (Some (u ''/butik/zara'')) \<rparr>],
                       query_candidates = Returns [] \<rparr> = Returns [u ''zara'']"
      unfolding eval_page eval_clean Let_def
      by (simp add: eval_tables eval_regex eval_patterns)
    show ?thesis
      unfolding westfield_main_def main_loop.simps main_step_def Let_def site.select_convs z y
      by (simp add: eval_main eval_tables)
  qed
  have b: "export_unique latin1
        [(per_filename (u ''zzz''), Data [u ''Zara'']), (per_filename (u ''aaa''), Data [u ''zara''])]
     = [(u ''zara'', u ''aaa'')]"
    by (simp add: eval_export per_filename_def eval_tables Let_def)
  show ?thesis by (rule conjI [OF a b])
qed

section \<open>The documented examples of the normalizer\<close>

text \<open>
  C7. On the documented examples both normalizers return the documented names:
  \<^verbatim>\<open>Store (Closed)\<close> gives \<^verbatim>\<open>Store\<close>, \<^verbatim>\<open>Name - st\xe4ngt\<close> gives \<^verbatim>\<open>Name\<close>,
  \<^verbatim>\<open>Butik: Shoe World\<close> gives \<^verbatim>\<open>Shoe World\<close> and \<^verbatim>\<open>Shop Shop\<close> gives \<^verbatim>\<open>Shop\<close>
  (\<^verbatim>\<open>\xe4\<close> is the code point 228).
\<close>

theorem normalizer_examples:
  "westfield_clean_store_name latin1 (u ''Store (Closed)'') = u ''Store''
   \<and> westfield_clean_store_name latin1 (u ''Name - st'' @ [228] @ u ''ngt'') = u ''Name''
   \<and> westfield_clean_store_name latin1 (u ''Butik: Shoe World'') = u ''Shoe World''
   \<and> westfield_clean_store_name latin1 (u ''Shop Shop'') = u ''Shop''
   \<and> jan_clean_store_name latin1 (u ''Store (Closed)'') = u ''Store''
   \<and> jan_clean_store_name latin1 (u ''Name - st'' @ [228] @ u ''ngt'') = u ''Name''
   \<and> jan_clean_store_name latin1 (u ''Butik: Shoe World'') = u ''Shoe World''
   \<and> jan_clean_store_name latin1 (u ''Shop Shop'') = u ''Shop''"
  unfolding eval_clean Let_def by (simp add: eval_tables eval_regex eval_patterns)

section \<open>The candidate filter\<close>

text \<open>
  C8. The anchor loop rejects a candidate whose trimmed text has fewer than 2
  characters (the empty text among them); otherwise it accepts the candidate exactly
  when the href in lower case contains one of \<^verbatim>\<open>/butik\<close>, \<^verbatim>\<open>/butiker\<close>, \<^verbatim>\<open>/store\<close>,
  \<^verbatim>\<open>/shop\<close>, \<^verbatim>\<open>/shops\<close> or the trimmed text in lower case contains one of \<^verbatim>\<open>butik\<close>,
  \<^verbatim>\<open>store\<close>, \<^verbatim>\<open>shop\<close>; the cleaned text of an accepted candidate, and of no other, is
  offered to the list of names. The text \<^verbatim>\<open>Nike\<close> with the href \<^verbatim>\<open>/se/butiker/nike\<close> is
  accepted, the text \<^verbatim>\<open>About\<close> with the href \<^verbatim>\<open>/about-us\<close> is rejected.
\<close>

theorem candidate_filter_accepts:
  "(candidate_filter U (strip U t) h \<longleftrightarrow>
      (2 \<le> length (strip U t) \<and>
        ((\<exists>k \<in> {u ''/butik'', u ''/butiker'', u ''/store'', u ''/shop'', u ''/shops''}.
             \<exists>a b. lower U h = a @ k @ b)
         \<or> (\<exists>k \<in> {u ''butik'', u ''store'', u ''shop''}. \<exists>a b. lower U (strip U t) = a @ k @ b))))
   \<and> anchor_step U clean ns \<lparr> inner_text = Returns (Some t), get_href = Returns (Some h) \<rparr> =
       (if candidate_filter U (strip U t) h then add_name (clean (strip U t)) ns else ns)
   \<and> candidate_filter latin1 (strip latin1 (u ''Nike'')) (u ''/se/butiker/nike'')
   \<and> \<not> candidate_filter latin1 (strip latin1 (u ''About'')) (u ''/about-us'')"
proof -
  have a: "candidate_filter latin1 (strip latin1 (u ''Nike'')) (u ''/se/butiker/nike'')"
    by (simp add: candidate_filter_def heuristics_def text_words_def eval_tables)
  have b: "\<not> candidate_filter latin1 (strip latin1 (u ''About'')) (u ''/about-us'')"
    by (simp add: candidate_filter_def heuristics_def text_words_def eval_tables)
  have c: "anchor_step U clean ns \<lparr> inner_text = Returns (Some t), get_href = Returns (Some h) \<rparr> =
       (if candidate_filter U (strip U t) h then add_name (clean (strip U t)) ns else ns)"
    by (simp add: anchor_step_def or_empty_def)
  show ?thesis using a b c candidate_filter_iff [of U "strip U t" h] by blast
qed

section \<open>Failures of the page layer\<close>

text \<open>
  C9, as amended. An anchor whose \<^verbatim>\<open>inner_text\<close> or \<^verbatim>\<open>get_attribute\<close> raises, and a
  fallback element whose \<^verbatim>\<open>inner_text\<close> raises, is skipped: it offers no name, and the
  result is that of the page without the element. The fallback scan runs exactly when
  the anchor loop has produced no name, also when anchors passed the filter and their
  texts were cleaned to the empty string; the result is then the first occurrences of
  the non-empty cleaned texts of the fallback elements, and otherwise those of the
  accepted anchors. The extraction raises exactly when a call of
  \<^verbatim>\<open>query_selector_all\<close> that it makes raises: the one for the anchors, or the one for
  the fallback when the anchor loop has produced no name.
\<close>

theorem extraction_skips_and_raises:
  "extract_store_links_page U pg =
     (case query_anchors pg of
        Raises \<Rightarrow> Raises
      | Returns as \<Rightarrow>
          if first_seen (filter (\<lambda>n. n \<noteq> []) (anchor_offers U (westfield_clean_store_name U) as)) = []
          then (case query_candidates pg of
                  Raises \<Rightarrow> Raises
                | Returns cs \<Rightarrow>
                    Returns (first_seen (filter (\<lambda>n. n \<noteq> [])
                      (fallback_offers U (westfield_clean_store_name U) cs))))
          else Returns (first_seen (filter (\<lambda>n. n \<noteq> [])
                 (anchor_offers U (westfield_clean_store_name U) as))))
   \<and> (inner_text e = Raises \<or> get_href e = Raises \<longrightarrow>
        anchor_offers U (westfield_clean_store_name U) (as1 @ e # as2)
          = anchor_offers U (westfield_clean_store_name U) (as1 @ as2)
        \<and> extract_store_links_page U \<lparr> query_anchors = Returns (as1 @ e # as2), query_candidates = qc \<rparr>
          = extract_store_links_page U \<lparr> query_anchors = Returns (as1 @ as2), query_candidates = qc \<rparr>)
   \<and> (inner_text e = Raises \<longrightarrow>
        fallback_offers U (westfield_clean_store_name U) (cs1 @ e # cs2)
          = fallback_offers U (westfield_clean_store_name U) (cs1 @ cs2)
        \<and> extract_store_links_page U \<lparr> query_anchors = qa, query_candidates = Returns (cs1 @ e # cs2) \<rparr>
          = extract_store_links_page U \<lparr> query_anchors = qa, query_candidates = Returns (cs1 @ cs2) \<rparr>)
   \<and> (extract_store_links_page U pg = Raises \<longleftrightarrow>
        query_anchors pg = Raises
        \<or> (\<exists>as. query_anchors pg = Returns as
              \<and> first_seen (filter (\<lambda>n. n \<noteq> []) (anchor_offers U (westfield_clean_store_name U) as)) = []
              \<and> query_candidates pg = Raises))"
proof -
  have a: "extract_store_links_page U pg =
     (case query_anchors pg of
        Raises \<Rightarrow> Raises
      | Returns as \<Rightarrow>
          if first_seen (filter (\<lambda>n. n \<noteq> []) (anchor_offers U (westfield_clean_store_name U) as)) = []
          then (case query_candidates pg of
                  Raises \<Rightarrow> Raises
                | Returns cs \<Rightarrow>
                    Returns (first_seen (filter (\<lambda>n. n \<noteq> [])
                      (fallback_offers U (westfield_clean_store_name U) cs))))
          else Returns (first_seen (filter (\<lambda>n. n \<noteq> [])
                 (anchor_offers U (westfield_clean_store_name U) as))))"
    by (simp add: extract_store_links_page_def extract_page_eq)
  have b: "inner_text e = Raises \<or> get_href e = Raises \<longrightarrow>
        anchor_offers U (westfield_clean_store_name U) (as1 @ e # as2)
          = anchor_offers U (westfield_clean_store_name U) (as1 @ as2)
        \<and> extract_store_links_page U \<lparr> query_anchors = Returns (as1 @ e # as2), query_candidates = qc \<rparr>
          = extract_store_links_page U \<lparr> query_anchors = Returns (as1 @ as2), query_candidates = qc \<rparr>"
    by (simp add: extract_store_links_page_def extract_page_eq anchor_offers_skip)
  have c: "inner_text e = Raises \<longrightarrow>
        fallback_offers U (westfield_clean_store_name U) (cs1 @ e # cs2)
          = fallback_offers U (westfield_clean_store_name U) (cs1 @ cs2)
        \<and> extract_store_links_page U \<lparr> query_anchors = qa, query_candidates = Returns (cs1 @ e # cs2) \<rparr>
          = extract_store_links_page U \<lparr> query_anchors = qa, query_candidates = Returns (cs1 @ cs2) \<rparr>"
    by (simp add: extract_store_links_page_def extract_page_eq fallback_offers_skip
        split: outcome.splits)
  have d: "extract_store_links_page U pg = Raises \<longleftrightarrow>
        query_anchors pg = Raises
        \<or> (\<exists>as. query_anchors pg = Returns as
              \<and> first_seen (filter (\<lambda>n. n \<noteq> []) (anchor_offers U (westfield_clean_store_name U) as)) = []
              \<and> query_candidates pg = Raises)"
    unfolding a by (auto split: outcome.splits)
  show ?thesis using a b c d by blast
qed

text \<open>
  The theorem at a page whose second anchor raises between the stores \<^verbatim>\<open>Nike\<close> and
  \<^verbatim>\<open>Zara\<close>, and at a page without store anchors whose second fallback element raises
  between \<^verbatim>\<open>Zara\<close> and \<^verbatim>\<open>COS\<close>.
\<close>

theorem extraction_skips_and_raises_witness:
  "get_href \<lparr> inner_text = Returns (Some (u ''Shop'')), get_href = Raises \<rparr> = Raises
   \<and> extract_store_links_page latin1
       \<lparr> query_anchors = Returns ([\<lparr> inner_text = Returns (Some (u ''Nike'')), get_href = Returns (Some (u ''/se/butiker/nike'')) \<rparr>] @ \<lparr> inner_text = Returns (Some (u ''Shop'')), get_href = Raises \<rparr>
            # [\<lparr> inner_text = Returns (Some (u ''Zara'')), get_href = Returns (Some (u ''/store/zara'')) \<rparr>]), query_candidates = Raises \<rparr>
     = extract_store_links_page latin1
       \<lparr> query_anchors = Returns ([\<lparr> inner_text = Returns (Some (u ''Nike'')), get_href = Returns (Some (u ''/se/butiker/nike'')) \<rparr>]
            @ [\<lparr> inner_text = Returns (Some (u ''Zara'')), get_href = Returns (Some (u ''/store/zara'')) \<rparr>]), query_candidates = Raises \<rparr>
   \<and> extract_store_links_page latin1
       \<lparr> query_anchors = Returns ([\<lparr> inner_text = Returns (Some (u ''Nike'')), get_href = Returns (Some (u ''/se/butiker/nike'')) \<rparr>]
            @ [\<lparr> inner_text = Returns (Some (u ''Zara'')), get_href = Returns (Some (u ''/store/zara'')) \<rparr>]), query_candidates = Raises \<rparr>
     = Returns [u ''Nike'', u ''Zara'']
   \<and> inner_text \<lparr> inner_text = Raises, get_href = Returns None \<rparr> = Raises
   \<and> extract_store_links_page latin1
       \<lparr> query_anchors = Returns [\<lparr> inner_text = Returns (Some (u ''About'')), get_href = Returns (Some (u ''/about-us'')) \<rparr>], query_candidates = Returns ([\<lparr> inner_text = Returns (Some (u ''Zara'')), get_href = Returns None \<rparr>] @ \<lparr> inner_text = Raises, get_href = Returns None \<rparr>
            # [\<lparr> inner_text = Returns (Some (u ''COS'')), get_href = Returns None \<rparr>]) \<rparr>
     = extract_store_links_page latin1
       \<lparr> query_anchors = Returns [\<lparr> inner_text = Returns (Some (u ''About'')), get_href = Returns (Some (u ''/about-us'')) \<rparr>], query_candidates = Returns ([\<lparr> inner_text = Returns (Some (u ''Zara'')), get_href = Returns None \<rparr>]
            @ [\<lparr> inner_text = Returns (Some (u ''COS'')), get_href = Returns None \<rparr>]) \<rparr>
   \<and> extract_store_links_page latin1
       \<lparr> query_anchors = Returns [\<lparr> inner_text = Returns (Some (u ''About'')), get_href = Returns (Some (u ''/about-us'')) \<rparr>], query_candidates = Returns ([\<lparr> inner_text = Returns (Some (u ''Zara'')), get_href = Returns None \<rparr>]
            @ [\<lparr> inner_text = Returns (Some (u ''COS'')), get_href = Returns None \<rparr>]) \<rparr>
     = Returns [u ''Zara'', u ''COS'']"
proof -
  have h1: "inner_text \<lparr> inner_text = Returns (Some (u ''Shop'')), get_href = Raises \<rparr> = Raises \<or> get_href \<lparr> inner_text = Returns (Some (u ''Shop'')), get_href = Raises \<rparr> = Raises"
    by simp
  have h2: "inner_text \<lparr> inner_text = Raises, get_href = Returns None \<rparr> = Raises"
    by simp
  note t1 = extraction_skips_and_raises [of latin1 "\<lparr> query_anchors = Returns ([\<lparr> inner_text = Returns (Some (u ''Nike'')), get_href = Returns (Some (u ''/se/butiker/nike'')) \<rparr>] @ \<lparr> inner_text = Returns (Some (u ''Shop'')), get_href = Raises \<rparr>
            # [\<lparr> inner_text = Returns (Some (u ''Zara'')), get_href = Returns (Some (u ''/store/zara'')) \<rparr>]), query_candidates = Raises \<rparr>"
      "\<lparr> inner_text = Returns (Some (u ''Shop'')), get_href = Raises \<rparr>" "[\<lparr> inner_text = Returns (Some (u ''Nike'')), get_href = Returns (Some (u ''/se/butiker/nike'')) \<rparr>]" "[\<lparr> inner_text = Returns (Some (u ''Zara'')), get_href = Returns (Some (u ''/store/zara'')) \<rparr>]" Raises "[]" "[]" Raises]
  note t2 = extraction_skips_and_raises [of latin1 "\<lparr> query_anchors = Returns [\<lparr> inner_text = Returns (Some (u ''About'')), get_href = Returns (Some (u ''/about-us'')) \<rparr>], query_candidates = Returns ([\<lparr> inner_text = Returns (Some (u ''Zara'')), get_href = Returns None \<rparr>] @ \<lparr> inner_text = Raises, get_href = Returns None \<rparr>
            # [\<lparr> inner_text = Returns (Some (u ''COS'')), get_href = Returns None \<rparr>]) \<rparr>"
      "\<lparr> inner_text = Raises, get_href = Returns None \<rparr>" "[]" "[]" Raises "[\<lparr> inner_text = Returns (Some (u ''Zara'')), get_href = Returns None \<rparr>]" "[\<lparr> inner_text = Returns (Some (u ''COS'')), get_href = Returns None \<rparr>]" "Returns [\<lparr> inner_text = Returns (Some (u ''About'')), get_href = Returns (Some (u ''/about-us'')) \<rparr>]"]
  have s1: "extract_store_links_page latin1
       \<lparr> query_anchors = Returns ([\<lparr> inner_text = Returns (Some (u ''Nike'')), get_href = Returns (Some (u ''/se/butiker/nike'')) \<rparr>] @ \<lparr> inner_text = Returns (Some (u ''Shop'')), get_href = Raises \<rparr>
            # [\<lparr> inner_text = Returns (Some (u ''Zara'')), get_href = Returns (Some (u ''/store/zara'')) \<rparr>]), query_candidates = Raises \<rparr>
     = extract_store_links_page latin1
       \<lparr> query_anchors = Returns ([\<lparr> inner_text = Returns (Some (u ''Nike'')), get_href = Returns (Some (u ''/se/butiker/nike'')) \<rparr>]
            @ [\<lparr> inner_text = Returns (Some (u ''Zara'')), get_href = Returns (Some (u ''/store/zara'')) \<rparr>]), query_candidates = Raises \<rparr>"
    by (rule conjunct2 [OF mp [OF conjunct1 [OF conjunct2 [OF t1]] h1]])
  have s2: "extract_store_links_page latin1
       \<lparr> query_anchors = Returns [\<lparr> inner_text = Returns (Some (u ''About'')), get_href = Returns (Some (u ''/about-us'')) \<rparr>], query_candidates = Returns ([\<lparr> inner_text = Returns (Some (u ''Zara'')), get_href = Returns None \<rparr>] @ \<lparr> inner_text = Raises, get_href = Returns None \<rparr>
            # [\<lparr> inner_text = Returns (Some (u ''COS'')), get_href = Returns None \<rparr>]) \<rparr>
     = extract_store_links_page latin1
       \<lparr> query_anchors = Returns [\<lparr> inner_text = Returns (Some (u ''About'')), get_href = Returns (Some (u ''/about-us'')) \<rparr>], query_candidates = Returns ([\<lparr> inner_text = Returns (Some (u ''Zara'')), get_href = Returns None \<rparr>]
            @ [\<lparr> inner_text = Returns (Some (u ''COS'')), get_href = Returns None \<rparr>]) \<rparr>"
    by (rule conjunct2 [OF mp [OF conjunct1 [OF conjunct2 [OF conjunct2 [OF t2]]] h2]])
  have v1: "extract_store_links_page latin1
       \<lparr> query_anchors = Returns ([\<lparr> inner_text = Returns (Some (u ''Nike'')), get_href = Returns (Some (u ''/se/butiker/nike'')) \<rparr>]
            @ [\<lparr> inner_text = Returns (Some (u ''Zara'')), get_href = Returns (Some (u ''/store/zara'')) \<rparr>]), query_candidates = Raises \<rparr>
     = Returns [u ''Nike'', u ''Zara'']"
      unfolding eval_page eval_clean Let_def
      by (simp add: eval_tables eval_regex eval_patterns)
  have v2: "extract_store_links_page latin1
       \<lparr> query_anchors = Returns [\<lparr> inner_text = Returns (Some (u ''About'')), get_href = Returns (Some (u ''/about-us'')) \<rparr>], query_candidates = Returns ([\<lparr> inner_text = Returns (Some (u ''Zara'')), get_href = Returns None \<rparr>]
            @ [\<lparr> inner_text = Returns (Some (u ''COS'')), get_href = Returns None \<rparr>]) \<rparr>
     = Returns [u ''Zara'', u ''COS'']"
      unfolding eval_page eval_clean Let_def
      by (simp add: eval_tables eval_regex eval_patterns)
  have g: "get_href \<lparr> inner_text = Returns (Some (u ''Shop'')), get_href = Raises \<rparr> = Raises"
    by simp
  show ?thesis
    by (rule conjI [OF g conjI [OF s1 conjI [OF v1 conjI [OF h2 conjI [OF s2 v2]]]]])
qed

text \<open>
  C9 as stated fails: the anchor \<^verbatim>\<open>7-Eleven\<close> passes the filter and is cleaned to the
  empty string, so the fallback scan runs although a candidate was accepted; and an
  enumeration that raises makes the extraction raise.
\<close>

theorem fallback_after_accepted_anchor:
  "candidate_filter latin1 (strip latin1 (u ''7-Eleven'')) (u ''/butik/7-eleven'')
   \<and> extract_store_links_page latin1
       \<lparr> query_anchors = Returns [\<lparr> inner_text = Returns (Some (u ''7-Eleven'')),
                                     get_href = Returns (Some (u ''/butik/7-eleven'')) \<rparr>],
         query_candidates = Returns [\<lparr> inner_text = Returns (Some (u ''Fallback Name'')),
                                        get_href = Returns None \<rparr>] \<rparr>
     = Returns [u ''Fallback Name'']
   \<and> extract_store_links_page latin1 \<lparr> query_anchors = Raises, query_candidates = Returns [] \<rparr>
     = Raises"
  unfolding eval_page eval_clean Let_def
  by (simp add: eval_tables eval_regex eval_patterns)

section \<open>The list of names of a page\<close>

text \<open>
  C10. The list returned by \<^verbatim>\<open>extract_store_links\<close>, and by
  \<^verbatim>\<open>extract_store_names_from_page\<close>, holds no empty string and no string twice, and it
  is the first occurrences, in the order of the page elements, of the non-empty cleaned
  texts of the accepted anchors, or of the fallback elements when the anchors give none.
\<close>

theorem extracted_names_invariants:
  "[] \<notin> set (extract_store_links U as cs) \<and> distinct (extract_store_links U as cs)
   \<and> extract_store_links U as cs =
       (if first_seen (filter (\<lambda>n. n \<noteq> []) (anchor_offers U (westfield_clean_store_name U) as)) = []
        then first_seen (filter (\<lambda>n. n \<noteq> []) (fallback_offers U (westfield_clean_store_name U) cs))
        else first_seen (filter (\<lambda>n. n \<noteq> []) (anchor_offers U (westfield_clean_store_name U) as)))
   \<and> [] \<notin> set (extract_store_names_from_page U as cs)
   \<and> distinct (extract_store_names_from_page U as cs)
   \<and> extract_store_names_from_page U as cs =
       (if first_seen (filter (\<lambda>n. n \<noteq> []) (anchor_offers U (jan_clean_store_name U) as)) = []
        then first_seen (filter (\<lambda>n. n \<noteq> []) (fallback_offers U (jan_clean_store_name U) cs))
        else first_seen (filter (\<lambda>n. n \<noteq> []) (anchor_offers U (jan_clean_store_name U) as)))"
  unfolding extract_store_links_def extract_store_names_from_page_def
  using extract_names_invariants [of U "westfield_clean_store_name U" as cs]
    extract_names_invariants [of U "jan_clean_store_name U" as cs]
    extract_names_eq [of U "westfield_clean_store_name U" as cs]
    extract_names_eq [of U "jan_clean_store_name U" as cs]
  by blast

end
